theory Spec2Isabelle
  imports Main
begin

section \<open>Source items and the type graph\<close>

text \<open>
  The renderer of \<^verbatim>\<open>JavaScriptPropTypes.ts\<close> builds its output from \<^verbatim>\<open>Sourcelike\<close>
  values: a string, a \<^verbatim>\<open>Name\<close> object, an array of \<^verbatim>\<open>Sourcelike\<close>, or a \<^verbatim>\<open>Source\<close> object
  (here only the newline, which carries its indentation change).  A \<^verbatim>\<open>Name\<close> is an object
  compared by identity (\<^verbatim>\<open>===\<close>); the identity is a number here.
\<close>

datatype name = Name nat

datatype sourcelike =
    Text string
  | NameRef name
  | Items "sourcelike list"
  | Newline int

text \<open>
  Modelled from the spec: the \<^verbatim>\<open>kind\<close> tag of a type (Type, not part of the source file).
  The variants are those of the data model: the primitives, the transformed strings,
  arrays, maps, classes and objects, enums and unions.
\<close>

datatype typeKind =
    KAny | KNull | KBool | KInteger | KDouble | KString | KTransformedString
  | KArray | KClass | KMap | KObject | KEnum | KUnion

text \<open>
  Modelled from the spec: a type of the graph (Type, not part of the source file), as the
  synthesizer walks it.  A class, object or enum node is a handle (its
  identity in the graph): the synthesizer never looks inside it, which is how a cyclic
  graph is a finite value here.  The properties of an object are delivered by the
  traversal, see \<open>renderer\<close> below.  The members of a union are listed in the order
  \<^verbatim>\<open>getChildren()\<close> iterates them.
\<close>

datatype ty =
    TAny | TNull | TBool | TInteger | TDouble | TString | TTransformedString
  | TArray ty
  | TClass nat
  | TMap ty
  | TObject nat
  | TEnum nat
  | TUnion "ty list"

fun kind :: "ty \<Rightarrow> typeKind" where
  "kind TAny = KAny"
| "kind TNull = KNull"
| "kind TBool = KBool"
| "kind TInteger = KInteger"
| "kind TDouble = KDouble"
| "kind TString = KString"
| "kind TTransformedString = KTransformedString"
| "kind (TArray _) = KArray"
| "kind (TClass _) = KClass"
| "kind (TMap _) = KMap"
| "kind (TObject _) = KObject"
| "kind (TEnum _) = KEnum"
| "kind (TUnion _) = KUnion"

datatype error = Panic string

text \<open>JavaScript's \<^verbatim>\<open>Array.prototype.indexOf\<close>: the first index of the element, or -1.\<close>

fun indexOf :: "'a list \<Rightarrow> 'a \<Rightarrow> int" where
  "indexOf [] x = -1"
| "indexOf (y # ys) x =
     (if y = x then 0 else (let i = indexOf ys x in if i < 0 then -1 else i + 1))"

text \<open>\<^verbatim>\<open>arrayIntercalate\<close> of collection-utils: the separator between consecutive items.\<close>

fun arrayIntercalate :: "'a \<Rightarrow> 'a list \<Rightarrow> 'a list" where
  "arrayIntercalate sep [] = []"
| "arrayIntercalate sep [x] = [x]"
| "arrayIntercalate sep (x # y # ys) = x # sep # arrayIntercalate sep (y # ys)"

section \<open>The validator synthesizer\<close>

text \<open>
  \<^verbatim>\<open>typeMapTypeFor(t, required)\<close>.  The named kinds return before the match.  The match
  is \<^verbatim>\<open>matchType\<close>, written as a case distinction with the callbacks in the order the
  source passes them; \<^verbatim>\<open>panic\<close> is the error value.

  Modelled from the spec: \<^verbatim>\<open>matchType\<close> (TypeUtils, not part of the source file) is the
  dispatch over the variant of the type; a variant the caller gives no callback for, the
  object kind here, is the fatal internal-consistency failure of the spec.
  The first argument is \<^verbatim>\<open>this.nameForNamedType\<close>, the renderer's read-only view of the Namer.
\<close>

fun typeMapTypeFor :: "(ty \<Rightarrow> name) \<Rightarrow> ty \<Rightarrow> bool \<Rightarrow> error + sourcelike"
  and typeMapTypeForChildren :: "(ty \<Rightarrow> name) \<Rightarrow> ty list \<Rightarrow> error + sourcelike list"
where
  "typeMapTypeFor nm t required =
     (if indexOf [KClass, KObject, KEnum] (kind t) \<ge> 0
      then Inr (Items [Text ''_'', NameRef (nm t)])
      else
        (case
           (case t of
              TAny \<Rightarrow> Inr (Text ''PropTypes.any'')
            | TNull \<Rightarrow> Inr (Text ''PropTypes.any'')
            | TBool \<Rightarrow> Inr (Text ''PropTypes.bool'')
            | TInteger \<Rightarrow> Inr (Text ''PropTypes.number'')
            | TDouble \<Rightarrow> Inr (Text ''PropTypes.number'')
            | TString \<Rightarrow> Inr (Text ''PropTypes.string'')
            | TArray items \<Rightarrow>
                (case typeMapTypeFor nm items False of
                   Inl e \<Rightarrow> Inl e
                 | Inr inner \<Rightarrow> Inr (Items [Text ''PropTypes.arrayOf('', inner, Text '')'']))
            | TClass _ \<Rightarrow> Inl (Panic ''Should already be handled.'')
            | TMap _ \<Rightarrow> Inr (Text ''PropTypes.object'')
            | TObject _ \<Rightarrow> Inl (Panic ''Unsupported type in non-exhaustive match'')
            | TEnum _ \<Rightarrow> Inl (Panic ''Should already be handled.'')
            | TUnion members \<Rightarrow>
                (case typeMapTypeForChildren nm members of
                   Inl e \<Rightarrow> Inl e
                 | Inr children \<Rightarrow>
                     Inr (Items ([Text ''PropTypes.oneOfType([''] @
                                 arrayIntercalate (Text '', '') children @
                                 [Text ''])''])))
            | TTransformedString \<Rightarrow> Inr (Text ''PropTypes.string''))
         of
           Inl e \<Rightarrow> Inl e
         | Inr match \<Rightarrow> if required then Inr (Items [match]) else Inr match))"
| "typeMapTypeForChildren nm [] = Inr []"
| "typeMapTypeForChildren nm (t # ts) =
     (case typeMapTypeFor nm t False of
        Inl e \<Rightarrow> Inl e
      | Inr c \<Rightarrow>
          (case typeMapTypeForChildren nm ts of
             Inl e \<Rightarrow> Inl e
           | Inr cs \<Rightarrow> Inr (c # cs)))"


text \<open>A property of an object: \<^verbatim>\<open>ClassProperty\<close> with its type and its optionality flag.\<close>

record classProperty =
  propType :: ty
  isOptional :: bool

text \<open>\<^verbatim>\<open>typeMapTypeForProperty(p)\<close>: the synthesizer runs first, then the flag decides.\<close>

definition typeMapTypeForProperty :: "(ty \<Rightarrow> name) \<Rightarrow> classProperty \<Rightarrow> error + sourcelike" where
  "typeMapTypeForProperty nm p =
     (case typeMapTypeFor nm (propType p) True of
        Inl e \<Rightarrow> Inl e
      | Inr typeMap \<Rightarrow>
          if \<not> isOptional p then Inr typeMap else Inr (Items [Text ''PropType.any'']))"

text \<open>
  Modelled from the spec: the serializer of a validator expression (Source, not part of
  the source file).  An expression is an ordered sequence of tokens, literal text or a
  reference to a Name; its text is the concatenation, in order, of the literal text and
  of the string the Namer assigned to each Name.  A line break is one newline character
  (indentation is left out).
\<close>

fun render :: "(name \<Rightarrow> string) \<Rightarrow> sourcelike \<Rightarrow> string" where
  "render assigned (Text s) = s"
| "render assigned (NameRef n) = assigned n"
| "render assigned (Items xs) = concat (map (render assigned) xs)"
| "render assigned (Newline _) = [CHR 0x0A]"

section \<open>The emit context\<close>

text \<open>
  Modelled from the spec: the text-emission mechanics (Renderer and EmitContext, not part
  of the source file) are an external collaborator that receives an ordered sequence of
  fragments.  The context keeps the items emitted so far, the last newline it emitted
  (whose indentation \<^verbatim>\<open>indent\<close> changes), the number of blank lines asked for and the
  flag that forbids a blank line at the start.  \<^verbatim>\<open>emitLine\<close> emits its parts as one item
  (the part itself when there is one, the array of the parts otherwise) and a newline.
\<close>

record emitContext =
  emitted :: "sourcelike list"
  lastNewline :: "nat option"
  numBlankLinesNeeded :: nat
  preventBlankLine :: bool

text \<open>Modelled from the spec: a fresh context, empty, with no blank line allowed yet.\<close>

definition newEmitContext :: emitContext where
  "newEmitContext =
     \<lparr>emitted = [], lastNewline = None, numBlankLinesNeeded = 0, preventBlankLine = True\<rparr>"

text \<open>Modelled from the spec: appending an item allows blank lines from then on.\<close>

definition pushItem :: "sourcelike \<Rightarrow> emitContext \<Rightarrow> emitContext" where
  "pushItem item ctx = ctx\<lparr>emitted := emitted ctx @ [item], preventBlankLine := False\<rparr>"

text \<open>Modelled from the spec: a newline is an item, remembered as the last newline.\<close>

definition emitNewline :: "emitContext \<Rightarrow> emitContext" where
  "emitNewline ctx = (pushItem (Newline 0) ctx)\<lparr>lastNewline := Some (length (emitted ctx))\<rparr>"

text \<open>
  Modelled from the spec: an item is preceded by the blank lines asked for, unless the
  context is still empty.
\<close>

definition emitItem :: "sourcelike \<Rightarrow> emitContext \<Rightarrow> emitContext" where
  "emitItem item ctx =
     (let ctx1 = (if emitted ctx \<noteq> [] then (emitNewline ^^ numBlankLinesNeeded ctx) ctx else ctx)
      in pushItem item (ctx1\<lparr>numBlankLinesNeeded := 0\<rparr>))"

text \<open>Modelled from the spec: \<^verbatim>\<open>ensureBlankLine()\<close> asks for one blank line where one is allowed.\<close>

definition ensureBlankLine :: "emitContext \<Rightarrow> emitContext" where
  "ensureBlankLine ctx =
     (if preventBlankLine ctx then ctx
      else ctx\<lparr>numBlankLinesNeeded := max (numBlankLinesNeeded ctx) 1\<rparr>)"

text \<open>
  Modelled from the spec: \<^verbatim>\<open>indent(fn)\<close> raises the indentation at the last newline, runs
  \<^verbatim>\<open>fn\<close> and lowers it at the newline that is then the last.  Without a newline so far the
  change is a panic.
\<close>

fun addIndent :: "int \<Rightarrow> sourcelike \<Rightarrow> sourcelike" where
  "addIndent offset (Newline c) = Newline (c + offset)"
| "addIndent offset item = item"

definition changeIndent :: "int \<Rightarrow> emitContext \<Rightarrow> error + emitContext" where
  "changeIndent offset ctx =
     (case lastNewline ctx of
        None \<Rightarrow> Inl (Panic ''Cannot change indent for the first line'')
      | Some i \<Rightarrow> Inr (ctx\<lparr>emitted := (emitted ctx)[i := addIndent offset (emitted ctx ! i)]\<rparr>))"

definition indent :: "(emitContext \<Rightarrow> error + emitContext) \<Rightarrow> emitContext \<Rightarrow> error + emitContext" where
  "indent fn ctx =
     (case changeIndent 1 ctx of
        Inl e \<Rightarrow> Inl e
      | Inr ctx1 \<Rightarrow>
          (case fn ctx1 of
             Inl e \<Rightarrow> Inl e
           | Inr ctx2 \<Rightarrow> changeIndent (- 1) ctx2))"

text \<open>Modelled from the spec: \<^verbatim>\<open>emitLine(...lineParts)\<close>.\<close>

definition emitLine :: "sourcelike list \<Rightarrow> emitContext \<Rightarrow> emitContext" where
  "emitLine lineParts ctx =
     emitNewline
       (case lineParts of
          [] \<Rightarrow> ctx
        | [part] \<Rightarrow> emitItem part ctx
        | _ \<Rightarrow> emitItem (Items lineParts) ctx)"

text \<open>
  Modelled from the spec: \<^verbatim>\<open>gatherSource(emitter)\<close> runs the emitter on a fresh context and
  returns the items it emitted; \<^verbatim>\<open>emitGatheredSource(items)\<close> emits them one by one.
\<close>

definition gatherSource :: "(emitContext \<Rightarrow> error + emitContext) \<Rightarrow> error + sourcelike list" where
  "gatherSource emitter =
     (case emitter newEmitContext of
        Inl e \<Rightarrow> Inl e
      | Inr ctx \<Rightarrow> Inr (emitted ctx))"

definition emitGatheredSource :: "sourcelike list \<Rightarrow> emitContext \<Rightarrow> emitContext" where
  "emitGatheredSource items ctx = foldl (\<lambda>c item. emitItem item c) ctx items"


section \<open>The renderer and its traversals\<close>

text \<open>
  What the pass reads of the renderer.  The traversals \<^verbatim>\<open>forEachObject\<close>,
  \<^verbatim>\<open>forEachClassProperty\<close>, \<^verbatim>\<open>forEachEnum\<close>, \<^verbatim>\<open>forEachEnumCase\<close> and \<^verbatim>\<open>forEachTopLevel\<close>
  belong to the type graph collaborator; each is the sequence it delivers to its callback,
  in its order:
  \<^item> \<open>namedObjects\<close>: every object type with its properties, each property with its Name,
    its JSON key and the \<^verbatim>\<open>ClassProperty\<close>;
  \<^item> \<open>namedEnums\<close>: every enum type with its cases, each case with its Name and its JSON
    label;
  \<^item> \<open>topLevels\<close>: every root type with its Name.
  The Name \<^verbatim>\<open>forEachObject\<close> and \<^verbatim>\<open>forEachEnum\<close> hand over with a type is the one
  \<^verbatim>\<open>nameForNamedType\<close> gives for it.  \<^verbatim>\<open>utf16StringEscape\<close> is the string escape of the
  support library, and \<^verbatim>\<open>leadingComments\<close> the comment block of the caller, if any.
\<close>

record renderer =
  nameForNamedType :: "ty \<Rightarrow> name"
  utf16StringEscape :: "string \<Rightarrow> string"
  leadingComments :: "string list option"
  namedObjects :: "(ty \<times> (name \<times> string \<times> classProperty) list) list"
  namedEnums :: "(ty \<times> (name \<times> string) list) list"
  topLevels :: "(ty \<times> name) list"

definition emitUsageComments :: "emitContext \<Rightarrow> emitContext" where
  "emitUsageComments ctx = emitLine [Text ''// For use with proptypes.''] ctx"

text \<open>
  Modelled from the spec: \<^verbatim>\<open>emitCommentLines\<close> (ConvenienceRenderer, not part of the source
  file) emits the caller-supplied leading comment block, one line comment per line: the
  comment start and the line, the start trimmed at its end when the line is empty.
\<close>

definition emitCommentLines :: "string list \<Rightarrow> emitContext \<Rightarrow> emitContext" where
  "emitCommentLines lines ctx =
     foldl (\<lambda>c line. emitLine [Text (if line = [] then ''//'' else ''// ''), Text line] c) ctx lines"

definition emitImports :: "emitContext \<Rightarrow> emitContext" where
  "emitImports ctx =
     emitLine [Text (''import PropTypes from '' @ [CHR 0x22] @ ''prop-types'' @ [CHR 0x22] @ '';'')]
       (ensureBlankLine ctx)"

section \<open>Object bodies\<close>

text \<open>The callback of \<^verbatim>\<open>forEachClassProperty\<close> in \<^verbatim>\<open>emitObject\<close>, run over the properties.\<close>

fun emitProperties ::
  "renderer \<Rightarrow> (name \<times> string \<times> classProperty) list \<Rightarrow> emitContext \<Rightarrow> error + emitContext"
where
  "emitProperties r [] ctx = Inr ctx"
| "emitProperties r ((_, jsonName, property) # rest) ctx =
     (case typeMapTypeForProperty (nameForNamedType r) property of
        Inl e \<Rightarrow> Inl e
      | Inr typeMap \<Rightarrow>
          emitProperties r rest
            (emitLine
               [Text ([CHR 0x22] @ utf16StringEscape r jsonName @ [CHR 0x22]),
                Text '': '', typeMap, Text '','']
               ctx))"

definition emitObject ::
  "renderer \<Rightarrow> name \<Rightarrow> (name \<times> string \<times> classProperty) list \<Rightarrow> emitContext \<Rightarrow> error + emitContext"
where
  "emitObject r name props ctx =
     (case indent (emitProperties r props)
             (emitLine [Text ''_'', NameRef name, Text '' = PropTypes.shape({''] (ensureBlankLine ctx)) of
        Inl e \<Rightarrow> Inl e
      | Inr ctx1 \<Rightarrow> Inr (emitLine [Text ''});''] ctx1))"

section \<open>The ordering loop of emitTypes\<close>

text \<open>
  \<^verbatim>\<open>source.filter((value) => value as Name)\<close>: the cast does nothing at run time, so the
  filter keeps the items that are truthy.  An empty string is falsy; a non-empty string,
  a Name, an array and a Source object are truthy.
\<close>

fun truthy :: "sourcelike \<Rightarrow> bool" where
  "truthy (Text s) = (s \<noteq> [])"
| "truthy (NameRef _) = True"
| "truthy (Items _) = True"
| "truthy (Newline _) = True"

text \<open>
  \<^verbatim>\<open>mapKey[depIndex] === depName\<close>: strict equality of a Name object with an item, true
  only for an item that is that same Name.  A read past the end of \<^verbatim>\<open>mapKey\<close> is
  \<^verbatim>\<open>undefined\<close>, which no kept item equals.
\<close>

fun isKey :: "name list \<Rightarrow> nat \<Rightarrow> sourcelike \<Rightarrow> bool" where
  "isKey mapKey depIndex (NameRef n) = (depIndex < length mapKey \<and> mapKey ! depIndex = n)"
| "isKey mapKey depIndex _ = False"

text \<open>The inner loop over \<^verbatim>\<open>order\<close> (index \<^verbatim>\<open>j\<close>), for one \<^verbatim>\<open>depName\<close>.\<close>

fun scanOrder :: "name list \<Rightarrow> sourcelike \<Rightarrow> nat list \<Rightarrow> nat \<Rightarrow> nat" where
  "scanOrder mapKey depName [] ordinal = ordinal"
| "scanOrder mapKey depName (depIndex # rest) ordinal =
     scanOrder mapKey depName rest
       (if isKey mapKey depIndex depName then max ordinal (depIndex + 1) else ordinal)"

text \<open>The loop over \<^verbatim>\<open>names\<close> (index \<^verbatim>\<open>i\<close>).\<close>

fun scanNames :: "name list \<Rightarrow> sourcelike list \<Rightarrow> nat list \<Rightarrow> nat \<Rightarrow> nat" where
  "scanNames mapKey [] order ordinal = ordinal"
| "scanNames mapKey (depName # names) order ordinal =
     scanNames mapKey names order (scanOrder mapKey depName order ordinal)"

text \<open>The ordinal the callback computes for one definition, starting from 0.\<close>

definition ordinalFor :: "name list \<Rightarrow> sourcelike list \<Rightarrow> nat list \<Rightarrow> nat" where
  "ordinalFor mapKey source order = scanNames mapKey (filter truthy source) order 0"

text \<open>\<^verbatim>\<open>order.splice(ordinal, 0, index)\<close>: a start past the end appends.\<close>

definition splice :: "nat \<Rightarrow> nat \<Rightarrow> nat list \<Rightarrow> nat list" where
  "splice ordinal index order = take ordinal order @ [index] @ drop ordinal order"

text \<open>
  \<^verbatim>\<open>mapKey.forEach((_, index) => ...)\<close> over the indices still to come.  \<^verbatim>\<open>mapKey\<close> and
  \<^verbatim>\<open>mapValue\<close> are filled together, so \<^verbatim>\<open>mapValue[index]\<close> is always there.
\<close>

fun orderLoop :: "name list \<Rightarrow> sourcelike list list \<Rightarrow> nat list \<Rightarrow> nat list \<Rightarrow> nat list" where
  "orderLoop mapKey mapValue [] order = order"
| "orderLoop mapKey mapValue (index # rest) order =
     orderLoop mapKey mapValue rest
       (splice (ordinalFor mapKey (mapValue ! index) order) index order)"

definition emissionOrder :: "name list \<Rightarrow> sourcelike list list \<Rightarrow> nat list" where
  "emissionOrder mapKey mapValue = orderLoop mapKey mapValue [0..<length mapKey] []"


section \<open>emitTypes\<close>

text \<open>The first \<^verbatim>\<open>forEachObject\<close>: a \<^verbatim>\<open>let\<close> line for every object.\<close>

definition placeholderLine :: "name \<Rightarrow> sourcelike list" where
  "placeholderLine name = [Text ''let _'', NameRef name, Text '';'']"

definition emitPlaceholders :: "renderer \<Rightarrow> emitContext \<Rightarrow> emitContext" where
  "emitPlaceholders r ctx =
     foldl (\<lambda>c (t, props). emitLine (placeholderLine (nameForNamedType r t)) c) ctx (namedObjects r)"

text \<open>
  \<^verbatim>\<open>forEachEnum\<close>: the options are pushed four at a time for every case, the last
  separator is popped (\<^verbatim>\<open>pop\<close> on an empty array does nothing), and the line is emitted as
  one array.
\<close>

definition enumOptions :: "(name \<times> string) list \<Rightarrow> sourcelike list" where
  "enumOptions cases =
     butlast
       (foldl (\<lambda>options (name, jsonName).
                 options @ [Text [CHR 0x27], NameRef name, Text [CHR 0x27], Text '', ''])
          [] cases)"

definition enumLine :: "name \<Rightarrow> (name \<times> string) list \<Rightarrow> sourcelike" where
  "enumLine enumName cases =
     Items ([Text ''const _'', NameRef enumName, Text '' = PropTypes.oneOfType([''] @
            enumOptions cases @ [Text '']);''])"

definition emitEnums :: "renderer \<Rightarrow> emitContext \<Rightarrow> emitContext" where
  "emitEnums r ctx =
     foldl (\<lambda>c (enumType, cases). emitLine [enumLine (nameForNamedType r enumType) cases] c)
       ctx (namedEnums r)"

text \<open>
  The second \<^verbatim>\<open>forEachObject\<close>: the key and the gathered body of every object, pushed
  together; the result lists the pairs \<^verbatim>\<open>(mapKey[i], mapValue[i])\<close>.
\<close>

fun gatherObjects ::
  "renderer \<Rightarrow> (ty \<times> (name \<times> string \<times> classProperty) list) list
     \<Rightarrow> error + (name \<times> sourcelike list) list"
where
  "gatherObjects r [] = Inr []"
| "gatherObjects r ((t, props) # rest) =
     (case gatherSource (emitObject r (nameForNamedType r t) props) of
        Inl e \<Rightarrow> Inl e
      | Inr source \<Rightarrow>
          (case gatherObjects r rest of
             Inl e \<Rightarrow> Inl e
           | Inr defs \<Rightarrow> Inr ((nameForNamedType r t, source) # defs)))"

text \<open>\<^verbatim>\<open>order.forEach((i) => this.emitGatheredSource(mapValue[i]))\<close>.\<close>

definition emitOrdered :: "sourcelike list list \<Rightarrow> nat list \<Rightarrow> emitContext \<Rightarrow> emitContext" where
  "emitOrdered mapValue order ctx = foldl (\<lambda>c i. emitGatheredSource (mapValue ! i) c) ctx order"

text \<open>
  Modelled from the spec: \<^verbatim>\<open>type instanceof PrimitiveType\<close> (Type, not part of the source
  file) holds for the primitive variants of the data model, the transformed strings among
  them.
\<close>

fun isPrimitiveType :: "ty \<Rightarrow> bool" where
  "isPrimitiveType TAny = True"
| "isPrimitiveType TNull = True"
| "isPrimitiveType TBool = True"
| "isPrimitiveType TInteger = True"
| "isPrimitiveType TDouble = True"
| "isPrimitiveType TString = True"
| "isPrimitiveType TTransformedString = True"
| "isPrimitiveType _ = False"

text \<open>\<^verbatim>\<open>(type as any).items\<close>: the item type of an array, \<^verbatim>\<open>undefined\<close> on anything else.\<close>

fun itemsOf :: "ty \<Rightarrow> ty option" where
  "itemsOf (TArray items) = Some items"
| "itemsOf _ = None"

text \<open>The callback of \<^verbatim>\<open>forEachTopLevel\<close>.\<close>

definition emitTopLevel :: "renderer \<Rightarrow> ty \<Rightarrow> name \<Rightarrow> emitContext \<Rightarrow> error + emitContext" where
  "emitTopLevel r type name ctx =
     (if isPrimitiveType type then
        (case typeMapTypeFor (nameForNamedType r) type True of
           Inl e \<Rightarrow> Inl e
         | Inr typeMap \<Rightarrow>
             Inr (emitLine [Text ''export const '', NameRef name, Text '' = '', typeMap, Text '';'']
                    (ensureBlankLine ctx)))
      else if kind type = KArray then
        (case itemsOf type of
           None \<Rightarrow> Inl (Panic ''TypeError'')
         | Some items \<Rightarrow>
             (case typeMapTypeFor (nameForNamedType r) items True of
                Inl e \<Rightarrow> Inl e
              | Inr typeMap \<Rightarrow>
                  Inr (emitLine
                         [Text ''export const '', NameRef name, Text '' = PropTypes.arrayOf('',
                          typeMap, Text '');'']
                         (ensureBlankLine ctx))))
      else
        Inr (emitLine [Text ''export const '', NameRef name, Text '' = _'', NameRef name, Text '';'']
               (ensureBlankLine ctx)))"

fun emitTopLevels :: "renderer \<Rightarrow> (ty \<times> name) list \<Rightarrow> emitContext \<Rightarrow> error + emitContext" where
  "emitTopLevels r [] ctx = Inr ctx"
| "emitTopLevels r ((type, name) # rest) ctx =
     (case emitTopLevel r type name ctx of
        Inl e \<Rightarrow> Inl e
      | Inr ctx1 \<Rightarrow> emitTopLevels r rest ctx1)"

definition emitTypes :: "renderer \<Rightarrow> emitContext \<Rightarrow> error + emitContext" where
  "emitTypes r ctx =
     (let ctx1 = emitPlaceholders r (ensureBlankLine ctx);
          ctx2 = emitEnums r ctx1
      in case gatherObjects r (namedObjects r) of
           Inl e \<Rightarrow> Inl e
         | Inr defs \<Rightarrow>
             (let mapKey = map fst defs;
                  mapValue = map snd defs;
                  order = emissionOrder mapKey mapValue;
                  ctx3 = emitOrdered mapValue order ctx2
              in emitTopLevels r (topLevels r) ctx3))"

section \<open>emitSourceStructure\<close>

definition emitSourceStructure :: "renderer \<Rightarrow> error + sourcelike list" where
  "emitSourceStructure r =
     (let ctx = (case leadingComments r of
                   Some lines \<Rightarrow> emitCommentLines lines newEmitContext
                 | None \<Rightarrow> emitUsageComments newEmitContext)
      in case emitTypes r (emitImports ctx) of
           Inl e \<Rightarrow> Inl e
         | Inr ctx1 \<Rightarrow> Inr (emitted ctx1))"


section \<open>Notions of the specification\<close>

text \<open>
  The Names an expression refers to, at any depth: what the specification calls the
  references embedded in a body.
\<close>

fun referencedNames :: "sourcelike \<Rightarrow> name list" where
  "referencedNames (Text s) = []"
| "referencedNames (NameRef n) = [n]"
| "referencedNames (Items xs) = concat (map referencedNames xs)"
| "referencedNames (Newline c) = []"

definition bodyNames :: "sourcelike list \<Rightarrow> name list" where
  "bodyNames body = concat (map referencedNames body)"

text \<open>
  The ordinal in the specification's words, to compare with \<open>ordinalFor\<close>: over the
  definitions already in the output list that the body refers to, the maximum of one past
  the position of the definition in the output list, and 0 when there is none.
\<close>

definition specOrdinal :: "name list \<Rightarrow> sourcelike list \<Rightarrow> nat list \<Rightarrow> nat" where
  "specOrdinal mapKey body output =
     fold max
       (map (\<lambda>j. j + 1)
          (filter (\<lambda>j. output ! j < length mapKey \<and> mapKey ! (output ! j) \<in> set (bodyNames body))
             [0..<length output]))
       0"

text \<open>
  The class, object and enum nodes a type refers to where the synthesizer reaches them:
  the type itself, the items of an array and the members of a union.  The values of a map
  are not reached.
\<close>

fun namedNodes :: "ty \<Rightarrow> ty list" where
  "namedNodes (TClass i) = [TClass i]"
| "namedNodes (TObject i) = [TObject i]"
| "namedNodes (TEnum i) = [TEnum i]"
| "namedNodes (TArray items) = namedNodes items"
| "namedNodes (TUnion members) = concat (map namedNodes members)"
| "namedNodes t = []"

text \<open>The types of the graph the traversals deliver: objects and enums.\<close>

definition deliveredTypes :: "renderer \<Rightarrow> ty list" where
  "deliveredTypes r = map fst (namedObjects r) @ map fst (namedEnums r)"

text \<open>The named nodes the property types of the delivered objects refer to.\<close>

definition propertyNodes :: "renderer \<Rightarrow> ty list" where
  "propertyNodes r =
     concat (map (\<lambda>(t, props). concat (map (\<lambda>(name, jsonName, p). namedNodes (propType p)) props))
               (namedObjects r))"

text \<open>
  A graph is closed when every named node a property type refers to is an object or an
  enum that the traversals deliver.
\<close>

definition closedGraph :: "renderer \<Rightarrow> bool" where
  "closedGraph r = list_all (\<lambda>u. u \<in> set (deliveredTypes r)) (propertyNodes r)"

section \<open>Example graphs\<close>

text \<open>A Namer for the examples: the Name of a node carries the number of its handle.\<close>

fun handleName :: "ty \<Rightarrow> name" where
  "handleName (TClass i) = Name i"
| "handleName (TObject i) = Name i"
| "handleName (TEnum i) = Name i"
| "handleName t = Name 0"

text \<open>One root, a map of strings, with the Name 1.\<close>

definition mapRootRenderer :: renderer where
  "mapRootRenderer =
     \<lparr>nameForNamedType = handleName, utf16StringEscape = (\<lambda>s. s), leadingComments = None,
      namedObjects = [], namedEnums = [], topLevels = [(TMap TString, Name 1)]\<rparr>"

text \<open>
  Two classes, delivered in this order: class 0 without properties, and class 1 with one
  required property \<^verbatim>\<open>a\<close> of type class 0.  No cycle.
\<close>

definition dependentRenderer :: renderer where
  "dependentRenderer =
     \<lparr>nameForNamedType = handleName, utf16StringEscape = (\<lambda>s. s), leadingComments = None,
      namedObjects =
        [(TClass 0, []),
         (TClass 1, [(Name 10, ''a'', \<lparr>propType = TClass 0, isOptional = False\<rparr>)])],
      namedEnums = [], topLevels = [(TClass 1, Name 1)]\<rparr>"

text \<open>
  One enum, the root, with the declared cases Red, Green and Blue, and no object.  The
  enum-case Namer of the renderer (\<^verbatim>\<open>makeEnumCaseNamer\<close>) styles a case with
  \<^verbatim>\<open>nameStyle(s, false)\<close>, whose first word is all lower case: the cases get the Names 20,
  21 and 22, assigned \<^verbatim>\<open>red\<close>, \<^verbatim>\<open>green\<close> and \<^verbatim>\<open>blue\<close>.  \<^verbatim>\<open>forEachEnumCase\<close> delivers the
  cases sorted by their assigned Names: Blue, Green, Red.
\<close>

definition enumRenderer :: renderer where
  "enumRenderer =
     \<lparr>nameForNamedType = handleName, utf16StringEscape = (\<lambda>s. s), leadingComments = None,
      namedObjects = [],
      namedEnums = [(TEnum 5, [(Name 22, ''Blue''), (Name 21, ''Green''), (Name 20, ''Red'')])],
      topLevels = [(TEnum 5, Name 5)]\<rparr>"

text \<open>The strings assigned to the Names of \<open>enumRenderer\<close>.\<close>

fun colorAssigned :: "name \<Rightarrow> string" where
  "colorAssigned (Name n) =
     (if n = 20 then ''red'' else if n = 21 then ''green'' else if n = 22 then ''blue''
      else ''Color'')"

text \<open>
  Mutual recursion and an enum: class 0, the root, has a required property \<^verbatim>\<open>b\<close> of type
  class 1; class 1 has a required property \<^verbatim>\<open>a\<close> of type class 0 and a required property
  \<^verbatim>\<open>color\<close> of the type of enum 5, whose cases are delivered as Blue, Green, Red.
\<close>

definition mutualRenderer :: renderer where
  "mutualRenderer =
     \<lparr>nameForNamedType = handleName, utf16StringEscape = (\<lambda>s. s), leadingComments = None,
      namedObjects =
        [(TClass 0, [(Name 10, ''b'', \<lparr>propType = TClass 1, isOptional = False\<rparr>)]),
         (TClass 1, [(Name 11, ''a'', \<lparr>propType = TClass 0, isOptional = False\<rparr>),
                     (Name 12, ''color'', \<lparr>propType = TEnum 5, isOptional = False\<rparr>)])],
      namedEnums = [(TEnum 5, [(Name 22, ''Blue''), (Name 21, ''Green''), (Name 20, ''Red'')])],
      topLevels = [(TClass 0, Name 0)]\<rparr>"

text \<open>
  The strings assigned to the Names of \<open>mutualRenderer\<close>, and a second run of the Namer:
  every Name is a new object, with the string of the Name it stands for.
\<close>

fun mutualAssigned :: "name \<Rightarrow> string" where
  "mutualAssigned (Name n) =
     (if n = 0 then ''A'' else if n = 1 then ''B'' else if n = 5 then ''Color''
      else if n = 20 then ''red'' else if n = 21 then ''green'' else if n = 22 then ''blue''
      else ''property'')"

fun freshName :: "name \<Rightarrow> name" where
  "freshName (Name n) = Name (n + 100)"

fun freshAssigned :: "name \<Rightarrow> string" where
  "freshAssigned (Name n) = mutualAssigned (Name (n - 100))"

section \<open>Auxiliary notions\<close>

text \<open>The blank lines an item is preceded by when it is emitted into a context.\<close>

definition flush :: "emitContext \<Rightarrow> sourcelike list" where
  "flush ctx = (if emitted ctx = [] then [] else replicate (numBlankLinesNeeded ctx) (Newline 0))"

text \<open>The item \<^verbatim>\<open>emitLine\<close> emits for the parts of a line.\<close>

definition lineItem :: "sourcelike list \<Rightarrow> sourcelike" where
  "lineItem lineParts = (case lineParts of [part] \<Rightarrow> part | _ \<Rightarrow> Items lineParts)"

text \<open>
  The Names the required properties of an object refer to: for every required property,
  the Names of the named nodes of its type.
\<close>

definition propertyNames :: "(ty \<Rightarrow> name) \<Rightarrow> (name \<times> string \<times> classProperty) list \<Rightarrow> name list" where
  "propertyNames nm props =
     concat (map (\<lambda>(name, jsonName, p). if isOptional p then [] else map nm (namedNodes (propType p))) props)"

text \<open>The output of the pass for \<open>enumRenderer\<close>.\<close>

definition enumRendererOutput :: "sourcelike list" where
  "enumRendererOutput =
     [Text ''// For use with proptypes.'', Newline 0,
      Newline 0,
      Text (''import PropTypes from '' @ [CHR 0x22] @ ''prop-types'' @ [CHR 0x22] @ '';''),
      Newline 0,
      Newline 0,
      Items [Text ''const _'', NameRef (Name 5), Text '' = PropTypes.oneOfType(['',
             Text [CHR 0x27], NameRef (Name 22), Text [CHR 0x27], Text '', '',
             Text [CHR 0x27], NameRef (Name 21), Text [CHR 0x27], Text '', '',
             Text [CHR 0x27], NameRef (Name 20), Text [CHR 0x27],
             Text '']);''],
      Newline 0,
      Newline 0,
      Items [Text ''export const '', NameRef (Name 5), Text '' = _'', NameRef (Name 5), Text '';''],
      Newline 0]"

text \<open>The output of the pass for \<open>mutualRenderer\<close>.\<close>

definition mutualRendererOutput :: "sourcelike list" where
  "mutualRendererOutput =
     [Text ''// For use with proptypes.'', Newline 0,
      Newline 0,
      Text (''import PropTypes from '' @ [CHR 0x22] @ ''prop-types'' @ [CHR 0x22] @ '';''),
      Newline 0,
      Newline 0,
      Items [Text ''let _'', NameRef (Name 0), Text '';''], Newline 0,
      Items [Text ''let _'', NameRef (Name 1), Text '';''], Newline 0,
      Items [Text ''const _'', NameRef (Name 5), Text '' = PropTypes.oneOfType(['',
             Text [CHR 0x27], NameRef (Name 22), Text [CHR 0x27], Text '', '',
             Text [CHR 0x27], NameRef (Name 21), Text [CHR 0x27], Text '', '',
             Text [CHR 0x27], NameRef (Name 20), Text [CHR 0x27],
             Text '']);''],
      Newline 0,
      Items [Text ''_'', NameRef (Name 1), Text '' = PropTypes.shape({''], Newline 1,
      Items [Text ([CHR 0x22] @ ''a'' @ [CHR 0x22]), Text '': '',
             Items [Text ''_'', NameRef (Name 0)], Text '',''],
      Newline 0,
      Items [Text ([CHR 0x22] @ ''color'' @ [CHR 0x22]), Text '': '',
             Items [Text ''_'', NameRef (Name 5)], Text '',''],
      Newline (- 1),
      Text ''});'', Newline 0,
      Items [Text ''_'', NameRef (Name 0), Text '' = PropTypes.shape({''], Newline 1,
      Items [Text ([CHR 0x22] @ ''b'' @ [CHR 0x22]), Text '': '',
             Items [Text ''_'', NameRef (Name 1)], Text '',''],
      Newline (- 1),
      Text ''});'', Newline 0,
      Newline 0,
      Items [Text ''export const '', NameRef (Name 0), Text '' = _'', NameRef (Name 0), Text '';''],
      Newline 0]"


text \<open>An item that is a Name itself, and a body none of whose items is.\<close>

fun isNameRef :: "sourcelike \<Rightarrow> bool" where
  "isNameRef (NameRef n) = True"
| "isNameRef item = False"

definition noNameItems :: "sourcelike list \<Rightarrow> bool" where
  "noNameItems items = list_all (\<lambda>item. \<not> isNameRef item) items"

text \<open>
  The parts of the output, as functions of the renderer.  The validator of a property and
  the synthesized expression of a type, taken out of their results.
\<close>

definition propertyValidator :: "(ty \<Rightarrow> name) \<Rightarrow> classProperty \<Rightarrow> sourcelike" where
  "propertyValidator nm p = (case typeMapTypeForProperty nm p of Inr s \<Rightarrow> s | Inl e \<Rightarrow> Text [])"

definition synthesized :: "(ty \<Rightarrow> name) \<Rightarrow> ty \<Rightarrow> sourcelike" where
  "synthesized nm t = (case typeMapTypeFor nm t True of Inr s \<Rightarrow> s | Inl e \<Rightarrow> Text [])"

text \<open>The lines of the properties of an object, as \<^verbatim>\<open>emitObject\<close> emits them before the indentation is lowered.\<close>

definition propertyLines :: "renderer \<Rightarrow> (name \<times> string \<times> classProperty) list \<Rightarrow> sourcelike list" where
  "propertyLines r props =
     concat (map (\<lambda>(name, jsonName, p).
                    [Items [Text ([CHR 0x22] @ utf16StringEscape r jsonName @ [CHR 0x22]), Text '': '',
                            propertyValidator (nameForNamedType r) p, Text '',''],
                     Newline 0]) props)"

text \<open>
  The body of an object: the opening line, the property lines between the two changes of
  the indentation, and the closing line.
\<close>

definition objectBody :: "renderer \<Rightarrow> name \<Rightarrow> (name \<times> string \<times> classProperty) list \<Rightarrow> sourcelike list" where
  "objectBody r name props =
     Items [Text ''_'', NameRef name, Text '' = PropTypes.shape({''] #
     (if props = [] then [Newline 0]
      else Newline 1 # butlast (propertyLines r props) @ [Newline (- 1)]) @
     [Text ''});'', Newline 0]"

definition objectBodies :: "renderer \<Rightarrow> sourcelike list list" where
  "objectBodies r = map (\<lambda>(t, props). objectBody r (nameForNamedType r t) props) (namedObjects r)"

text \<open>The parts of the line of a root.\<close>

definition exportParts :: "renderer \<Rightarrow> ty \<Rightarrow> name \<Rightarrow> sourcelike list" where
  "exportParts r t name =
     (if isPrimitiveType t then
        [Text ''export const '', NameRef name, Text '' = '', synthesized (nameForNamedType r) t, Text '';'']
      else case itemsOf t of
        Some items \<Rightarrow>
          [Text ''export const '', NameRef name, Text '' = PropTypes.arrayOf('',
           synthesized (nameForNamedType r) items, Text '');'']
      | None \<Rightarrow> [Text ''export const '', NameRef name, Text '' = _'', NameRef name, Text '';''])"

text \<open>
  The comment and the import; the placeholder lines; the enum lines; the lines of the
  roots, each after a blank line.
\<close>

definition headerItems :: "renderer \<Rightarrow> sourcelike list" where
  "headerItems r =
     (case leadingComments r of
        Some lines \<Rightarrow>
          concat (map (\<lambda>line. [Items [Text (if line = [] then ''//'' else ''// ''), Text line],
                               Newline 0]) lines) @
          (if lines = [] then [] else [Newline 0]) @
          [Text (''import PropTypes from '' @ [CHR 0x22] @ ''prop-types'' @ [CHR 0x22] @ '';''),
           Newline 0]
      | None \<Rightarrow>
          [Text ''// For use with proptypes.'', Newline 0,
           Newline 0,
           Text (''import PropTypes from '' @ [CHR 0x22] @ ''prop-types'' @ [CHR 0x22] @ '';''),
           Newline 0])"

definition placeholderLines :: "renderer \<Rightarrow> sourcelike list" where
  "placeholderLines r =
     concat (map (\<lambda>(t, props). [Items (placeholderLine (nameForNamedType r t)), Newline 0])
               (namedObjects r))"

definition enumLines :: "renderer \<Rightarrow> sourcelike list" where
  "enumLines r =
     concat (map (\<lambda>(t, cases). [enumLine (nameForNamedType r t) cases, Newline 0]) (namedEnums r))"

definition exportLines :: "renderer \<Rightarrow> sourcelike list" where
  "exportLines r =
     concat (map (\<lambda>(t, name). [Newline 0, Items (exportParts r t name), Newline 0]) (topLevels r))"

text \<open>
  A second run of the Namer makes new Name objects.  \<open>renameItem f\<close> and
  \<open>renameRenderer f\<close> put the Name \<open>f n\<close> in the place of every Name \<open>n\<close>, in an item and in
  everything the renderer holds.
\<close>

fun renameItem :: "(name \<Rightarrow> name) \<Rightarrow> sourcelike \<Rightarrow> sourcelike" where
  "renameItem f (Text s) = Text s"
| "renameItem f (NameRef n) = NameRef (f n)"
| "renameItem f (Items xs) = Items (map (renameItem f) xs)"
| "renameItem f (Newline c) = Newline c"

definition renameProperties ::
  "(name \<Rightarrow> name) \<Rightarrow> (name \<times> string \<times> classProperty) list \<Rightarrow> (name \<times> string \<times> classProperty) list"
where
  "renameProperties f props = map (\<lambda>(name, jsonName, p). (f name, jsonName, p)) props"

definition renameCases :: "(name \<Rightarrow> name) \<Rightarrow> (name \<times> string) list \<Rightarrow> (name \<times> string) list" where
  "renameCases f cases = map (\<lambda>(name, jsonName). (f name, jsonName)) cases"

definition renameRenderer :: "(name \<Rightarrow> name) \<Rightarrow> renderer \<Rightarrow> renderer" where
  "renameRenderer f r =
     r\<lparr>nameForNamedType := (\<lambda>t. f (nameForNamedType r t)),
       namedObjects := map (\<lambda>(t, props). (t, renameProperties f props)) (namedObjects r),
       namedEnums := map (\<lambda>(t, cases). (t, renameCases f cases)) (namedEnums r),
       topLevels := map (\<lambda>(t, name). (t, f name)) (topLevels r)\<rparr>"

text \<open>
  Modelled from the spec: the text of an output (the serializer is not part of the source
  file), the concatenation of the texts of its items.
\<close>

definition renderOutput :: "(name \<Rightarrow> string) \<Rightarrow> sourcelike list \<Rightarrow> string" where
  "renderOutput assigned out = concat (map (render assigned) out)"

section \<open>The synthesizer, variant by variant\<close>

lemmas typeMapTypeFor_unfold = typeMapTypeFor.simps(1)

declare typeMapTypeFor.simps(1) [simp del]

lemma typeMapTypeFor_named [simp]:
  "typeMapTypeFor nm (TClass i) required = Inr (Items [Text ''_'', NameRef (nm (TClass i))])"
  "typeMapTypeFor nm (TObject i) required = Inr (Items [Text ''_'', NameRef (nm (TObject i))])"
  "typeMapTypeFor nm (TEnum i) required = Inr (Items [Text ''_'', NameRef (nm (TEnum i))])"
  by (simp_all add: typeMapTypeFor_unfold)

lemma typeMapTypeFor_primitive [simp]:
  "typeMapTypeFor nm TAny required =
     Inr (if required then Items [Text ''PropTypes.any''] else Text ''PropTypes.any'')"
  "typeMapTypeFor nm TNull required =
     Inr (if required then Items [Text ''PropTypes.any''] else Text ''PropTypes.any'')"
  "typeMapTypeFor nm TBool required =
     Inr (if required then Items [Text ''PropTypes.bool''] else Text ''PropTypes.bool'')"
  "typeMapTypeFor nm TInteger required =
     Inr (if required then Items [Text ''PropTypes.number''] else Text ''PropTypes.number'')"
  "typeMapTypeFor nm TDouble required =
     Inr (if required then Items [Text ''PropTypes.number''] else Text ''PropTypes.number'')"
  "typeMapTypeFor nm TString required =
     Inr (if required then Items [Text ''PropTypes.string''] else Text ''PropTypes.string'')"
  "typeMapTypeFor nm TTransformedString required =
     Inr (if required then Items [Text ''PropTypes.string''] else Text ''PropTypes.string'')"
  by (simp_all add: typeMapTypeFor_unfold)

lemma typeMapTypeFor_TMap [simp]:
  "typeMapTypeFor nm (TMap values) required =
     Inr (if required then Items [Text ''PropTypes.object''] else Text ''PropTypes.object'')"
  by (simp add: typeMapTypeFor_unfold)

lemma typeMapTypeFor_TArray [simp]:
  "typeMapTypeFor nm (TArray items) required =
     (case typeMapTypeFor nm items False of
        Inl e \<Rightarrow> Inl e
      | Inr inner \<Rightarrow>
          Inr (if required then Items [Items [Text ''PropTypes.arrayOf('', inner, Text '')'']]
               else Items [Text ''PropTypes.arrayOf('', inner, Text '')'']))"
  by (subst typeMapTypeFor_unfold) (simp split: sum.splits)

lemma typeMapTypeFor_TUnion [simp]:
  "typeMapTypeFor nm (TUnion members) required =
     (case typeMapTypeForChildren nm members of
        Inl e \<Rightarrow> Inl e
      | Inr children \<Rightarrow>
          Inr (if required
               then Items [Items ([Text ''PropTypes.oneOfType([''] @
                                  arrayIntercalate (Text '', '') children @ [Text ''])''])]
               else Items ([Text ''PropTypes.oneOfType([''] @
                           arrayIntercalate (Text '', '') children @ [Text ''])''])))"
  by (subst typeMapTypeFor_unfold) (simp split: sum.splits)

text \<open>The members of a union are synthesized one by one; none of them fails if none can.\<close>

lemma typeMapTypeForChildren_returns:
  "(\<And>t. t \<in> set ts \<Longrightarrow> \<exists>s. typeMapTypeFor nm t False = Inr s) \<Longrightarrow>
   \<exists>cs. typeMapTypeForChildren nm ts = Inr cs"
proof (induction ts)
  case Nil
  show ?case by simp
next
  case (Cons t ts)
  from Cons.prems obtain s where s: "typeMapTypeFor nm t False = Inr s" by auto
  from Cons obtain cs where cs: "typeMapTypeForChildren nm ts = Inr cs" by auto
  show ?case using s cs by simp
qed

lemma typeMapTypeFor_returns: "\<exists>s. typeMapTypeFor nm t required = Inr s"
proof (induction t arbitrary: required)
  case (TUnion members)
  then obtain cs where "typeMapTypeForChildren nm members = Inr cs"
    using typeMapTypeForChildren_returns[of members nm] by blast
  then show ?case by simp
next
  case (TArray t)
  then obtain s where "typeMapTypeFor nm t False = Inr s" by blast
  then show ?case by simp
qed simp_all

lemma typeMapTypeFor_required_wraps:
  "typeMapTypeFor nm t False = Inr b \<Longrightarrow>
   typeMapTypeFor nm t True = Inr b \<or> typeMapTypeFor nm t True = Inr (Items [b])"
  by (cases t) (auto split: sum.splits)

text \<open>
  C9.  The synthesizer is total: for every type of the data model (any, null, bool,
  integer, double, string, transformed string, array, map, class, object, enum, union)
  and either value of the flag it returns an expression and never the panic value.  A
  class, an object and an enum are answered with the reference to their Name before the
  match, so the panic branches of the match are never taken.
\<close>

theorem typeMapTypeFor_total:
  "(\<exists>s. typeMapTypeFor nm t required = Inr s) \<and>
   (\<forall>e. typeMapTypeFor nm t required \<noteq> Inl e) \<and>
   typeMapTypeFor nm (TClass i) required = Inr (Items [Text ''_'', NameRef (nm (TClass i))]) \<and>
   typeMapTypeFor nm (TObject i) required = Inr (Items [Text ''_'', NameRef (nm (TObject i))]) \<and>
   typeMapTypeFor nm (TEnum i) required = Inr (Items [Text ''_'', NameRef (nm (TEnum i))])"
proof -
  obtain s where "typeMapTypeFor nm t required = Inr s"
    using typeMapTypeFor_returns by blast
  then show ?thesis by simp
qed

text \<open>
  C7.  A map synthesizes to the generic untyped-object validator whatever its value type
  is, so two maps with different value types synthesize to the same expression.
\<close>

theorem map_synthesizes_untyped_object:
  "typeMapTypeFor nm (TMap values) required =
     Inr (if required then Items [Text ''PropTypes.object''] else Text ''PropTypes.object'') \<and>
   typeMapTypeFor nm (TMap values) required = typeMapTypeFor nm (TMap values') required"
  by simp

text \<open>
  C10.  For every type the synthesizer returns an expression for both values of the
  flag; the expression for \<^verbatim>\<open>required = true\<close> is the one for \<^verbatim>\<open>required = false\<close> or the
  singleton sequence holding it, and the two render to the same text.
\<close>

theorem required_flag_renders_alike:
  "\<exists>a b. typeMapTypeFor nm t True = Inr a \<and> typeMapTypeFor nm t False = Inr b \<and>
         (a = b \<or> a = Items [b]) \<and> render assigned a = render assigned b"
proof -
  obtain b where b: "typeMapTypeFor nm t False = Inr b"
    using typeMapTypeFor_returns by blast
  from typeMapTypeFor_required_wraps[OF b] show ?thesis
    using b by auto
qed





section \<open>Enum bodies\<close>

lemma foldl_push_options:
  "foldl (\<lambda>options (name, jsonName).
            options @ [Text [CHR 0x27], NameRef name, Text [CHR 0x27], Text '', ''])
     acc cases =
   acc @ concat (map (\<lambda>(name, jsonName).
                        [Text [CHR 0x27], NameRef name, Text [CHR 0x27]] @ [Text '', '']) cases)"
  by (induction cases arbitrary: acc) (simp_all add: case_prod_unfold)

lemma butlast_concat_sep:
  "butlast (concat (map (\<lambda>c. lit c @ [sep]) cs)) = concat (arrayIntercalate [sep] (map lit cs))"
proof (induction cs)
  case Nil
  show ?case by simp
next
  case (Cons c cs)
  show ?case
  proof (cases cs)
    case Nil
    then show ?thesis by (simp add: butlast_append)
  next
    case (Cons d ds)
    then have "concat (map (\<lambda>c. lit c @ [sep]) cs) \<noteq> []" by simp
    with Cons.IH Cons show ?thesis by (simp add: butlast_append)
  qed
qed

lemma enumOptions_intercalate:
  "enumOptions cases =
     concat (arrayIntercalate [Text '', '']
       (map (\<lambda>(name, jsonName). [Text [CHR 0x27], NameRef name, Text [CHR 0x27]]) cases))"
  unfolding enumOptions_def foldl_push_options
  using butlast_concat_sep[of "\<lambda>(name, jsonName). [Text [CHR 0x27], NameRef name, Text [CHR 0x27]]"
          "Text '', ''" cases]
  by (simp add: case_prod_unfold)

lemma enumOptions_ignores_labels:
  "enumOptions (map (\<lambda>(name, jsonName). (name, other)) cases) = enumOptions cases"
  by (simp add: enumOptions_intercalate case_prod_unfold comp_def)

text \<open>
  C5.  The line emitted for an enum is the one-of combinator over the quoted Name of
  every case, in the order the cases are delivered; the JSON label of a case does not
  enter the line.  For the enum with the declared cases Red, Green and Blue the pass
  emits, as item 6 of its output, the line whose text is
  \<^verbatim>\<open>const _Color = PropTypes.oneOfType(['blue', 'green', 'red']);\<close>: the literals are the
  Names of the cases in the order of the traversal, not the labels Red, Green and Blue
  in the declared order.
\<close>

theorem enum_literals_are_case_names:
  "enumLine enumName cases =
     Items ([Text ''const _'', NameRef enumName, Text '' = PropTypes.oneOfType([''] @
            concat (arrayIntercalate [Text '', '']
              (map (\<lambda>(name, jsonName). [Text [CHR 0x27], NameRef name, Text [CHR 0x27]]) cases)) @
            [Text '']);'']) \<and>
   enumLine enumName (map (\<lambda>(name, jsonName). (name, other)) cases) = enumLine enumName cases \<and>
   emitSourceStructure enumRenderer = Inr enumRendererOutput \<and>
   enumRendererOutput ! 6 =
     enumLine (Name 5) [(Name 22, ''Blue''), (Name 21, ''Green''), (Name 20, ''Red'')] \<and>
   render colorAssigned (enumRendererOutput ! 6) =
     ''const _Color = PropTypes.oneOfType(['' @
     [CHR 0x27] @ ''blue'' @ [CHR 0x27] @ '', '' @
     [CHR 0x27] @ ''green'' @ [CHR 0x27] @ '', '' @
     [CHR 0x27] @ ''red'' @ [CHR 0x27] @ '']);''"
proof -
  have "emitSourceStructure enumRenderer = Inr enumRendererOutput"
    by code_simp
  moreover
  have "enumRendererOutput ! 6 =
     enumLine (Name 5) [(Name 22, ''Blue''), (Name 21, ''Green''), (Name 20, ''Red'')]"
    by code_simp
  moreover
  have "render colorAssigned (enumRendererOutput ! 6) =
     ''const _Color = PropTypes.oneOfType(['' @
     [CHR 0x27] @ ''blue'' @ [CHR 0x27] @ '', '' @
     [CHR 0x27] @ ''green'' @ [CHR 0x27] @ '', '' @
     [CHR 0x27] @ ''red'' @ [CHR 0x27] @ '']);''"
    by code_simp
  ultimately show ?thesis
    by (simp add: enumLine_def enumOptions_ignores_labels) (simp add: enumOptions_intercalate)
qed


section \<open>Top-level bindings\<close>

text \<open>
  C3.  What the callback of \<^verbatim>\<open>forEachTopLevel\<close> emits for a root that is a map or a union:
  the binding \<^verbatim>\<open>export const N = _N;\<close> with the Name of the root, and not a binding that
  wraps the synthesized expression (for a map of strings, \<^verbatim>\<open>PropTypes.object\<close>).  In the
  output for the graph whose only root is a map of strings, nothing declares the identity
  \<^verbatim>\<open>_N\<close> the binding refers to.
\<close>

theorem map_root_aliases_undeclared_identity:
  "emitTopLevel r (TMap values) name ctx =
     Inr (emitLine [Text ''export const '', NameRef name, Text '' = _'', NameRef name, Text '';'']
            (ensureBlankLine ctx)) \<and>
   emitTopLevel r (TUnion members) name ctx =
     Inr (emitLine [Text ''export const '', NameRef name, Text '' = _'', NameRef name, Text '';'']
            (ensureBlankLine ctx)) \<and>
   typeMapTypeFor handleName (TMap TString) True = Inr (Items [Text ''PropTypes.object'']) \<and>
   emitSourceStructure mapRootRenderer =
     Inr [Text ''// For use with proptypes.'', Newline 0,
          Newline 0,
          Text (''import PropTypes from '' @ [CHR 0x22] @ ''prop-types'' @ [CHR 0x22] @ '';''),
          Newline 0,
          Newline 0,
          Items [Text ''export const '', NameRef (Name 1), Text '' = _'', NameRef (Name 1),
                 Text '';''],
          Newline 0]"
proof -
  have "emitSourceStructure mapRootRenderer =
     Inr [Text ''// For use with proptypes.'', Newline 0,
          Newline 0,
          Text (''import PropTypes from '' @ [CHR 0x22] @ ''prop-types'' @ [CHR 0x22] @ '';''),
          Newline 0,
          Newline 0,
          Items [Text ''export const '', NameRef (Name 1), Text '' = _'', NameRef (Name 1),
                 Text '';''],
          Newline 0]"
    by code_simp
  then show ?thesis by (simp add: emitTopLevel_def)
qed

section \<open>The emit context, the gathered bodies and the order\<close>

lemma emitted_pushItem [simp]: "emitted (pushItem x c) = emitted c @ [x]"
  by (simp add: pushItem_def)

lemma emitted_emitNewline [simp]: "emitted (emitNewline c) = emitted c @ [Newline 0]"
  by (simp add: emitNewline_def)

lemma numBlank_emitNewline [simp]: "numBlankLinesNeeded (emitNewline c) = numBlankLinesNeeded c"
  by (simp add: emitNewline_def pushItem_def)

lemma lastNewline_emitNewline [simp]: "lastNewline (emitNewline c) = Some (length (emitted c))"
  by (simp add: emitNewline_def)

lemma emitted_emitNewline_pow: "emitted ((emitNewline ^^ k) c) = emitted c @ replicate k (Newline 0)"
  by (induction k) (simp_all add: replicate_append_same)

lemma emitted_emitItem: "emitted (emitItem x c) = emitted c @ flush c @ [x]"
  by (simp add: emitItem_def flush_def emitted_emitNewline_pow Let_def)

lemma numBlank_emitItem [simp]: "numBlankLinesNeeded (emitItem x c) = 0"
  by (simp add: emitItem_def pushItem_def Let_def)

lemma emitted_emitLine:
  "lineParts \<noteq> [] \<Longrightarrow>
   emitted (emitLine lineParts c) = emitted c @ flush c @ [lineItem lineParts, Newline 0]"
  by (auto simp: emitLine_def lineItem_def emitted_emitItem split: list.splits)

lemma numBlank_emitLine: "lineParts \<noteq> [] \<Longrightarrow> numBlankLinesNeeded (emitLine lineParts c) = 0"
  by (auto simp: emitLine_def split: list.splits)

lemma lastNewline_emitLine [simp]: "lastNewline (emitLine lineParts c) \<noteq> None"
  by (simp add: emitLine_def)

lemma emitted_ensureBlankLine [simp]: "emitted (ensureBlankLine c) = emitted c"
  by (simp add: ensureBlankLine_def)

lemma lastNewline_ensureBlankLine [simp]: "lastNewline (ensureBlankLine c) = lastNewline c"
  by (simp add: ensureBlankLine_def)

lemma bodyNames_append [simp]: "bodyNames (xs @ ys) = bodyNames xs @ bodyNames ys"
  by (simp add: bodyNames_def)

lemma bodyNames_Nil [simp]: "bodyNames [] = []"
  by (simp add: bodyNames_def)

lemma bodyNames_Cons [simp]: "bodyNames (x # xs) = referencedNames x @ bodyNames xs"
  by (simp add: bodyNames_def)

lemma bodyNames_flush [simp]: "bodyNames (flush c) = []"
  by (simp add: flush_def bodyNames_def)

lemma referencedNames_addIndent [simp]: "referencedNames (addIndent k x) = referencedNames x"
  by (cases x) simp_all

lemma bodyNames_update_indent [simp]:
  "bodyNames (xs[i := addIndent k (xs ! i)]) = bodyNames xs"
proof (cases "i < length xs")
  case True
  have "map referencedNames (xs[i := addIndent k (xs ! i)]) = (map referencedNames xs)[i := referencedNames (xs ! i)]"
    by (simp add: map_update)
  also have "\<dots> = map referencedNames xs"
    using True by (metis list_update_id nth_map)
  finally show ?thesis by (simp add: bodyNames_def)
next
  case False
  then show ?thesis by (simp add: list_update_beyond)
qed

lemma changeIndent_returns:
  "lastNewline c \<noteq> None \<Longrightarrow>
   \<exists>c'. changeIndent k c = Inr c' \<and> lastNewline c' = lastNewline c \<and>
        bodyNames (emitted c') = bodyNames (emitted c)"
  by (auto simp: changeIndent_def split: option.splits)

lemma referencedNames_intercalate:
  "concat (map referencedNames (arrayIntercalate (Text s) xs)) = concat (map referencedNames xs)"
  by (induction "Text s" xs rule: arrayIntercalate.induct) simp_all

lemma typeMapTypeFor_names:
  "(typeMapTypeFor nm t required = Inr s \<longrightarrow> referencedNames s = map nm (namedNodes t))"
  "(typeMapTypeForChildren nm ts = Inr cs \<longrightarrow> concat (map referencedNames cs) = map nm (concat (map namedNodes ts)))"
   apply (induction nm t required and nm ts arbitrary: s and cs rule: typeMapTypeFor_typeMapTypeForChildren.induct)
  subgoal for nm t required s
    by (cases t) (auto split: sum.splits if_splits simp: referencedNames_intercalate)
  subgoal by simp
  subgoal by (auto split: sum.splits)
  done


lemma typeMapTypeForProperty_returns:
  "\<exists>s. typeMapTypeForProperty nm p = Inr s \<and>
        referencedNames s = (if isOptional p then [] else map nm (namedNodes (propType p)))"
proof -
  obtain s where s: "typeMapTypeFor nm (propType p) True = Inr s"
    using typeMapTypeFor_returns by blast
  with typeMapTypeFor_names(1)[of nm "propType p" True s] show ?thesis
    by (simp add: typeMapTypeForProperty_def)
qed

lemma emitProperties_returns:
  "lastNewline c \<noteq> None \<Longrightarrow>
   \<exists>c'. emitProperties r props c = Inr c' \<and> lastNewline c' \<noteq> None \<and>
        bodyNames (emitted c') = bodyNames (emitted c) @ propertyNames (nameForNamedType r) props"
proof (induction props arbitrary: c)
  case Nil
  then show ?case by (simp add: propertyNames_def)
next
  case (Cons x props)
  obtain name jsonName p where x: "x = (name, jsonName, p)" by (cases x) auto
  obtain s where s: "typeMapTypeForProperty (nameForNamedType r) p = Inr s"
    and n: "referencedNames s = (if isOptional p then [] else map (nameForNamedType r) (namedNodes (propType p)))"
    using typeMapTypeForProperty_returns by blast
  let ?c1 = "emitLine [Text ([CHR 0x22] @ utf16StringEscape r jsonName @ [CHR 0x22]), Text '': '', s, Text '',''] c"
  have l: "lastNewline ?c1 \<noteq> None" by simp
  have b: "bodyNames (emitted ?c1) = bodyNames (emitted c) @ referencedNames s"
    by (simp add: emitted_emitLine lineItem_def)
  from Cons.IH[OF l] obtain c' where c': "emitProperties r props ?c1 = Inr c'"
    "lastNewline c' \<noteq> None"
    "bodyNames (emitted c') = bodyNames (emitted ?c1) @ propertyNames (nameForNamedType r) props"
    by blast
  show ?case using c' s n b by (simp add: x propertyNames_def)
qed

lemma emitObject_returns:
  "\<exists>c. emitObject r name props newEmitContext = Inr c \<and>
       bodyNames (emitted c) = name # propertyNames (nameForNamedType r) props"
proof -
  let ?c0 = "emitLine [Text ''_'', NameRef name, Text '' = PropTypes.shape({''] (ensureBlankLine newEmitContext)"
  have l0: "lastNewline ?c0 \<noteq> None" by simp
  have b0: "bodyNames (emitted ?c0) = [name]"
    by (simp add: emitted_emitLine lineItem_def newEmitContext_def)
  from changeIndent_returns[OF l0, of 1] obtain c1 where c1: "changeIndent 1 ?c0 = Inr c1"
    "lastNewline c1 = lastNewline ?c0" "bodyNames (emitted c1) = bodyNames (emitted ?c0)" by blast
  have l1: "lastNewline c1 \<noteq> None" using c1 l0 by simp
  from emitProperties_returns[OF l1, of r props] obtain c2 where c2: "emitProperties r props c1 = Inr c2"
    "lastNewline c2 \<noteq> None"
    "bodyNames (emitted c2) = bodyNames (emitted c1) @ propertyNames (nameForNamedType r) props" by blast
  from changeIndent_returns[OF c2(2), of "- 1"] obtain c3 where c3: "changeIndent (- 1) c2 = Inr c3"
    "bodyNames (emitted c3) = bodyNames (emitted c2)" by blast
  have "emitObject r name props newEmitContext = Inr (emitLine [Text ''});''] c3)"
    using c1 c2 c3 by (simp add: emitObject_def indent_def)
  moreover have "bodyNames (emitted (emitLine [Text ''});''] c3)) = name # propertyNames (nameForNamedType r) props"
    using c1 c2 c3 b0 by (simp add: emitted_emitLine lineItem_def)
  ultimately show ?thesis by blast
qed

lemma gatherObjects_returns:
  "\<exists>defs. gatherObjects r objs = Inr defs \<and>
          map fst defs = map (\<lambda>(t, props). nameForNamedType r t) objs \<and>
          map (\<lambda>(name, body). bodyNames body) defs =
            map (\<lambda>(t, props). nameForNamedType r t # propertyNames (nameForNamedType r) props) objs"
proof (induction objs)
  case Nil
  show ?case by simp
next
  case (Cons x objs)
  obtain t props where x: "x = (t, props)" by (cases x) auto
  obtain c where c: "emitObject r (nameForNamedType r t) props newEmitContext = Inr c"
    "bodyNames (emitted c) = nameForNamedType r t # propertyNames (nameForNamedType r) props"
    using emitObject_returns by blast
  from Cons obtain defs where defs: "gatherObjects r objs = Inr defs"
    "map fst defs = map (\<lambda>(t, props). nameForNamedType r t) objs"
    "map (\<lambda>(name, body). bodyNames body) defs =
            map (\<lambda>(t, props). nameForNamedType r t # propertyNames (nameForNamedType r) props) objs"
    by blast
  show ?case using c defs by (simp add: x gatherSource_def)
qed

lemma set_insert_between: "set (as @ [i] @ bs) = insert i (set (as @ bs))"
  by simp

lemma distinct_insert_between:
  "distinct (as @ [i] @ bs) = (i \<notin> set (as @ bs) \<and> distinct (as @ bs))"
  by auto

lemma set_splice [simp]: "set (splice ordinal index order) = insert index (set order)"
  unfolding splice_def set_insert_between by (simp only: append_take_drop_id)

lemma distinct_splice [simp]:
  "distinct (splice ordinal index order) = (index \<notin> set order \<and> distinct order)"
  unfolding splice_def distinct_insert_between by (simp only: append_take_drop_id)

lemma orderLoop_permutes:
  "distinct (todo @ order) \<Longrightarrow>
   distinct (orderLoop mapKey mapValue todo order) \<and>
   set (orderLoop mapKey mapValue todo order) = set todo \<union> set order"
proof (induction todo arbitrary: order)
  case Nil
  then show ?case by simp
next
  case (Cons index todo)
  let ?order' = "splice (ordinalFor mapKey (mapValue ! index) order) index order"
  have "distinct (todo @ ?order')" using Cons.prems by auto
  from Cons.IH[OF this] show ?case by auto
qed

lemma emissionOrder_permutes:
  "distinct (emissionOrder mapKey mapValue) \<and>
   set (emissionOrder mapKey mapValue) = {0..<length mapKey}"
  using orderLoop_permutes[of "[0..<length mapKey]" "[]" mapKey mapValue]
  by (simp add: emissionOrder_def)


lemma emitted_foldl_emitItem:
  "emitted (foldl (\<lambda>c item. emitItem item c) ctx items) =
     emitted ctx @ (if items = [] then [] else flush ctx) @ items"
proof (induction items arbitrary: ctx)
  case Nil
  show ?case by simp
next
  case (Cons x items)
  have "flush (emitItem x ctx) = []"
    by (simp add: flush_def)
  with Cons.IH[of "emitItem x ctx"] show ?case
    by (simp add: emitted_emitItem)
qed

lemma numBlank_foldl_emitItem:
  "numBlankLinesNeeded (foldl (\<lambda>c item. emitItem item c) ctx items) =
     (if items = [] then numBlankLinesNeeded ctx else 0)"
  by (induction items arbitrary: ctx) simp_all

lemma emitOrdered_concat:
  "emitOrdered mapValue order ctx =
     emitGatheredSource (concat (map (\<lambda>i. mapValue ! i) order)) ctx"
  by (induction order arbitrary: ctx) (simp_all add: emitOrdered_def emitGatheredSource_def)

section \<open>The ordering loop on an acyclic graph\<close>

text \<open>
  The items of a gathered body are the arrays of the lines, the newlines and the closing
  text: none of them is a Name.  So the scan of the loop never finds a key, every ordinal
  is 0, and the bodies are ordered in the reverse of the order they were gathered in.
\<close>

lemma isKey_needs_name: "\<not> isNameRef depName \<Longrightarrow> \<not> isKey mapKey depIndex depName"
  by (cases depName) simp_all

lemma scanOrder_no_name:
  "\<not> isNameRef depName \<Longrightarrow> scanOrder mapKey depName order ordinal = ordinal"
  by (induction order arbitrary: ordinal) (simp_all add: isKey_needs_name)

lemma scanNames_no_name:
  "noNameItems names \<Longrightarrow> scanNames mapKey names order ordinal = ordinal"
  by (induction names arbitrary: ordinal) (simp_all add: noNameItems_def scanOrder_no_name)

lemma ordinalFor_no_name: "noNameItems source \<Longrightarrow> ordinalFor mapKey source order = 0"
proof -
  assume "noNameItems source"
  then have "noNameItems (filter truthy source)"
    by (simp add: noNameItems_def list_all_iff)
  then show ?thesis by (simp add: ordinalFor_def scanNames_no_name)
qed

lemma orderLoop_no_name:
  "list_all (\<lambda>i. noNameItems (mapValue ! i)) todo \<Longrightarrow>
   orderLoop mapKey mapValue todo order = rev todo @ order"
  by (induction todo arbitrary: order) (simp_all add: ordinalFor_no_name splice_def)

lemma noNameItems_append [simp]: "noNameItems (xs @ ys) = (noNameItems xs \<and> noNameItems ys)"
  by (simp add: noNameItems_def)

lemma noNameItems_flush [simp]: "noNameItems (flush c)"
  by (simp add: flush_def noNameItems_def list_all_iff)

lemma noNameItems_emitLine:
  "lineParts \<noteq> [] \<Longrightarrow> \<not> isNameRef (lineItem lineParts) \<Longrightarrow> noNameItems (emitted c) \<Longrightarrow>
   noNameItems (emitted (emitLine lineParts c))"
  by (simp add: emitted_emitLine) (simp add: noNameItems_def)

lemma isNameRef_addIndent [simp]: "isNameRef (addIndent k x) = isNameRef x"
  by (cases x) simp_all

lemma noNameItems_changeIndent:
  "changeIndent k c = Inr c' \<Longrightarrow> noNameItems (emitted c) \<Longrightarrow> noNameItems (emitted c')"
proof -
  assume a: "changeIndent k c = Inr c'" and n: "noNameItems (emitted c)"
  from a obtain i where c': "emitted c' = (emitted c)[i := addIndent k (emitted c ! i)]"
    by (auto simp: changeIndent_def split: option.splits)
  show ?thesis
  proof (cases "i < length (emitted c)")
    case True
    then have "\<not> isNameRef (emitted c ! i)" using n by (simp add: noNameItems_def list_all_length)
    then show ?thesis using n True unfolding c' noNameItems_def list_all_length
      by (simp add: nth_list_update)
  next
    case False
    then show ?thesis using n by (simp add: c' list_update_beyond)
  qed
qed

lemma noNameItems_emitProperties:
  "emitProperties r props c = Inr c' \<Longrightarrow> noNameItems (emitted c) \<Longrightarrow> noNameItems (emitted c')"
proof (induction props arbitrary: c)
  case Nil
  then show ?case by simp
next
  case (Cons x props)
  obtain name jsonName p where x: "x = (name, jsonName, p)" by (cases x) auto
  from Cons.prems(1) obtain s where
    "emitProperties r props (emitLine [Text ([CHR 0x22] @ utf16StringEscape r jsonName @ [CHR 0x22]), Text '': '', s, Text '',''] c) = Inr c'"
    by (auto simp: x split: sum.splits)
  moreover have "noNameItems (emitted (emitLine [Text ([CHR 0x22] @ utf16StringEscape r jsonName @ [CHR 0x22]), Text '': '', s, Text '',''] c))"
    using Cons.prems(2) by (intro noNameItems_emitLine) (simp_all add: lineItem_def)
  ultimately show ?case by (rule Cons.IH)
qed

lemma noNameItems_emitObject:
  assumes "emitObject r name props newEmitContext = Inr c"
  shows "noNameItems (emitted c)"
proof -
  let ?c0 = "emitLine [Text ''_'', NameRef name, Text '' = PropTypes.shape({''] (ensureBlankLine newEmitContext)"
  have n0: "noNameItems (emitted ?c0)"
    by (intro noNameItems_emitLine) (simp_all add: lineItem_def newEmitContext_def noNameItems_def)
  from assms obtain c1 c2 c3 where steps: "changeIndent 1 ?c0 = Inr c1"
    "emitProperties r props c1 = Inr c2" "changeIndent (- 1) c2 = Inr c3"
    and c: "c = emitLine [Text ''});''] c3"
    by (auto simp: emitObject_def indent_def split: sum.splits)
  have "noNameItems (emitted c1)" using steps(1) n0 by (rule noNameItems_changeIndent)
  then have "noNameItems (emitted c2)" using steps(2) noNameItems_emitProperties by blast
  then have "noNameItems (emitted c3)" using steps(3) noNameItems_changeIndent by blast
  then show ?thesis unfolding c by (intro noNameItems_emitLine) (simp_all add: lineItem_def)
qed

lemma noNameItems_gatherObjects:
  "gatherObjects r objs = Inr defs \<Longrightarrow> list_all noNameItems (map snd defs)"
proof (induction objs arbitrary: defs)
  case Nil
  then show ?case by simp
next
  case (Cons x objs)
  obtain t props where x: "x = (t, props)" by (cases x) auto
  from Cons.prems obtain c defs' where c: "emitObject r (nameForNamedType r t) props newEmitContext = Inr c"
    and d: "gatherObjects r objs = Inr defs'" and e: "defs = (nameForNamedType r t, emitted c) # defs'"
    by (auto simp: x gatherSource_def split: sum.splits)
  from noNameItems_emitObject[OF c] Cons.IH[OF d] show ?case by (simp add: e)
qed

lemma gathered_order_is_reverse:
  assumes "gatherObjects r objs = Inr defs"
  shows "emissionOrder (map fst defs) (map snd defs) = rev [0..<length objs]"
proof -
  have l: "length defs = length objs"
    using gatherObjects_returns[of r objs] assms by (metis Inr_inject length_map)
  have "list_all noNameItems (map snd defs)" using assms by (rule noNameItems_gatherObjects)
  then have "list_all (\<lambda>i. noNameItems (map snd defs ! i)) [0..<length defs]"
    by (simp add: list_all_length)
  from orderLoop_no_name[OF this, of "map fst defs" "[]"] show ?thesis
    by (simp add: emissionOrder_def l)
qed

lemma gathered_ordinals_are_zero:
  "\<exists>defs. gatherObjects r objs = Inr defs \<and>
          emissionOrder (map fst defs) (map snd defs) = rev [0..<length objs] \<and>
          list_all (\<lambda>body. ordinalFor (map fst defs) body order = 0) (map snd defs)"
proof -
  obtain defs where defs: "gatherObjects r objs = Inr defs"
    using gatherObjects_returns by blast
  have "list_all noNameItems (map snd defs)"
    using defs by (rule noNameItems_gatherObjects)
  then have "list_all (\<lambda>body. ordinalFor (map fst defs) body order = 0) (map snd defs)"
    by (simp add: list_all_iff ordinalFor_no_name)
  with defs gathered_order_is_reverse[OF defs] show ?thesis by blast
qed

lemma dependentRenderer_gathered:
  "gatherObjects dependentRenderer (namedObjects dependentRenderer) =
     Inr [(Name 0,
           [Items [Text ''_'', NameRef (Name 0), Text '' = PropTypes.shape({''], Newline 0,
            Text ''});'', Newline 0]),
          (Name 1,
           [Items [Text ''_'', NameRef (Name 1), Text '' = PropTypes.shape({''], Newline 1,
            Items [Text [CHR 0x22, CHR ''a'', CHR 0x22], Text '': '',
                   Items [Text ''_'', NameRef (Name 0)], Text '',''],
            Newline (- 1),
            Text ''});'', Newline 0])]"
  by code_simp

text \<open>
  C1.  The graph of two classes without a cycle, class 1 referring to class 0 in a
  required property, delivered as class 0, class 1.  The gathered bodies are the two
  listed; the body of class 1 refers to the Name of class 0, nested in the array of its
  property line.  The loop orders them as 1, 0: the body of class 1 is emitted before
  the body of class 0 it refers to.  The loop also misorders bodies that hold the Name
  as an item of their own: of three definitions, the last one referring to the first,
  the order is 1, 2, 0.  For every graph the loop orders the gathered bodies in the
  reverse of the order the objects are delivered in, whatever they refer to.
\<close>

theorem dependent_object_emitted_before_dependency:
  "gatherObjects dependentRenderer (namedObjects dependentRenderer) =
     Inr [(Name 0,
           [Items [Text ''_'', NameRef (Name 0), Text '' = PropTypes.shape({''], Newline 0,
            Text ''});'', Newline 0]),
          (Name 1,
           [Items [Text ''_'', NameRef (Name 1), Text '' = PropTypes.shape({''], Newline 1,
            Items [Text [CHR 0x22, CHR ''a'', CHR 0x22], Text '': '',
                   Items [Text ''_'', NameRef (Name 0)], Text '',''],
            Newline (- 1),
            Text ''});'', Newline 0])] \<and>
   bodyNames
     [Items [Text ''_'', NameRef (Name 1), Text '' = PropTypes.shape({''], Newline 1,
      Items [Text [CHR 0x22, CHR ''a'', CHR 0x22], Text '': '',
             Items [Text ''_'', NameRef (Name 0)], Text '',''],
      Newline (- 1),
      Text ''});'', Newline 0] = [Name 1, Name 0] \<and>
   emissionOrder [Name 0, Name 1]
     [[Items [Text ''_'', NameRef (Name 0), Text '' = PropTypes.shape({''], Newline 0,
       Text ''});'', Newline 0],
      [Items [Text ''_'', NameRef (Name 1), Text '' = PropTypes.shape({''], Newline 1,
       Items [Text [CHR 0x22, CHR ''a'', CHR 0x22], Text '': '',
              Items [Text ''_'', NameRef (Name 0)], Text '',''],
       Newline (- 1),
       Text ''});'', Newline 0]] = [1, 0] \<and>
   emissionOrder [Name 0, Name 1, Name 2] [[], [], [NameRef (Name 0)]] = [1, 2, 0] \<and>
   (\<exists>defs. gatherObjects r (namedObjects r) = Inr defs \<and>
      emissionOrder (map fst defs) (map snd defs) = rev [0..<length (namedObjects r)])"
proof -
  have "\<exists>defs. gatherObjects r (namedObjects r) = Inr defs \<and>
      emissionOrder (map fst defs) (map snd defs) = rev [0..<length (namedObjects r)]"
    using gathered_ordinals_are_zero[of r "namedObjects r"] by blast
  moreover
  have "bodyNames
     [Items [Text ''_'', NameRef (Name 1), Text '' = PropTypes.shape({''], Newline 1,
      Items [Text [CHR 0x22, CHR ''a'', CHR 0x22], Text '': '',
             Items [Text ''_'', NameRef (Name 0)], Text '',''],
      Newline (- 1),
      Text ''});'', Newline 0] = [Name 1, Name 0]"
    by code_simp
  moreover
  have "emissionOrder [Name 0, Name 1]
     [[Items [Text ''_'', NameRef (Name 0), Text '' = PropTypes.shape({''], Newline 0,
       Text ''});'', Newline 0],
      [Items [Text ''_'', NameRef (Name 1), Text '' = PropTypes.shape({''], Newline 1,
       Items [Text [CHR 0x22, CHR ''a'', CHR 0x22], Text '': '',
              Items [Text ''_'', NameRef (Name 0)], Text '',''],
       Newline (- 1),
       Text ''});'', Newline 0]] = [1, 0]"
    by code_simp
  moreover
  have "emissionOrder [Name 0, Name 1, Name 2] [[], [], [NameRef (Name 0)]] = [1, 2, 0]"
    by code_simp
  ultimately show ?thesis
    using dependentRenderer_gathered by (intro conjI)
qed

text \<open>
  C4.  On the same graph, when class 1 is processed the output list is [0]; class 0,
  which the body of class 1 refers to, is at position 0 there, so the ordinal of the
  specification is 1, and the loop computes 0.  With the Name as an item of the body
  itself: of three definitions, after the first two the output list is [1, 0]; the third
  refers to the first, which is at position 1, so the ordinal of the specification is 2,
  and the loop computes 1, one past the index of the dependency in the input.  For every
  graph and every output list, the ordinal the loop computes for a gathered body is 0.
\<close>

theorem ordinal_is_not_one_past_position:
  "(\<exists>defs. gatherObjects dependentRenderer (namedObjects dependentRenderer) = Inr defs \<and>
      orderLoop (map fst defs) (map snd defs) [0] [] = [0] \<and>
      ordinalFor (map fst defs) (snd (defs ! 1)) [0] = 0 \<and>
      specOrdinal (map fst defs) (snd (defs ! 1)) [0] = 1) \<and>
   orderLoop [Name 0, Name 1, Name 2] [[], [], [NameRef (Name 0)]] [0, 1] [] = [1, 0] \<and>
   ordinalFor [Name 0, Name 1, Name 2] [NameRef (Name 0)] [1, 0] = 1 \<and>
   specOrdinal [Name 0, Name 1, Name 2] [NameRef (Name 0)] [1, 0] = 2 \<and>
   (\<exists>defs. gatherObjects r (namedObjects r) = Inr defs \<and>
      list_all (\<lambda>body. ordinalFor (map fst defs) body order = 0) (map snd defs))"
proof -
  have "\<exists>defs. gatherObjects r (namedObjects r) = Inr defs \<and>
      list_all (\<lambda>body. ordinalFor (map fst defs) body order = 0) (map snd defs)"
    using gathered_ordinals_are_zero[of r "namedObjects r" order] by blast
  moreover
  have "orderLoop [Name 0, Name 1, Name 2] [[], [], [NameRef (Name 0)]] [0, 1] [] = [1, 0] \<and>
        ordinalFor [Name 0, Name 1, Name 2] [NameRef (Name 0)] [1, 0] = 1 \<and>
        specOrdinal [Name 0, Name 1, Name 2] [NameRef (Name 0)] [1, 0] = 2"
    by code_simp
  moreover
  have "\<exists>defs. gatherObjects dependentRenderer (namedObjects dependentRenderer) = Inr defs \<and>
      orderLoop (map fst defs) (map snd defs) [0] [] = [0] \<and>
      ordinalFor (map fst defs) (snd (defs ! 1)) [0] = 0 \<and>
      specOrdinal (map fst defs) (snd (defs ! 1)) [0] = 1"
    apply (rule exI, rule conjI, rule dependentRenderer_gathered)
    apply code_simp
    done
  ultimately show ?thesis by blast
qed


section \<open>The output in closed form\<close>

text \<open>
  The output of the pass is the header, one blank line unless there is neither an object
  nor an enum, the placeholder lines, the enum lines, the object bodies in the order of
  the loop, and the lines of the roots.
\<close>

lemma flush_zero [simp]: "numBlankLinesNeeded c = 0 \<Longrightarrow> flush c = []"
  by (simp add: flush_def)

lemma flush_empty [simp]: "emitted c = [] \<Longrightarrow> flush c = []"
  by (simp add: flush_def)

lemma preventBlankLine_emitLine [simp]:
  "lineParts \<noteq> [] \<Longrightarrow> \<not> preventBlankLine (emitLine lineParts c)"
  by (auto simp: emitLine_def emitNewline_def pushItem_def split: list.splits)

lemma lastNewline_emitLine_index:
  "lineParts \<noteq> [] \<Longrightarrow>
   lastNewline (emitLine lineParts c) = Some (length (emitted c) + length (flush c) + 1)"
  by (auto simp: emitLine_def emitted_emitItem split: list.splits)

lemma numBlank_changeIndent:
  "changeIndent k c = Inr c' \<Longrightarrow> numBlankLinesNeeded c' = numBlankLinesNeeded c"
  by (auto simp: changeIndent_def split: option.splits)

lemma changeIndent_last:
  "emitted c = ys @ [Newline k] \<Longrightarrow> lastNewline c = Some (length ys) \<Longrightarrow>
   \<exists>c'. changeIndent off c = Inr c' \<and> emitted c' = ys @ [Newline (k + off)] \<and>
        lastNewline c' = Some (length ys) \<and> numBlankLinesNeeded c' = numBlankLinesNeeded c"
  by (simp add: changeIndent_def)

lemma emitProperties_exact:
  "emitted c = ys @ [Newline k] \<Longrightarrow> lastNewline c = Some (length ys) \<Longrightarrow>
   numBlankLinesNeeded c = 0 \<Longrightarrow>
   \<exists>c'. emitProperties r props c = Inr c' \<and>
        emitted c' = ys @ [Newline k] @ propertyLines r props \<and>
        lastNewline c' = Some (length (emitted c') - 1) \<and> numBlankLinesNeeded c' = 0"
proof (induction props arbitrary: c ys k)
  case Nil
  then show ?case by (simp add: propertyLines_def)
next
  case (Cons x props)
  obtain name jsonName p where x: "x = (name, jsonName, p)" by (cases x) auto
  obtain s where s: "typeMapTypeForProperty (nameForNamedType r) p = Inr s"
    using typeMapTypeForProperty_returns by blast
  let ?parts = "[Text ([CHR 0x22] @ utf16StringEscape r jsonName @ [CHR 0x22]), Text '': '', s, Text '','']"
  let ?c1 = "emitLine ?parts c"
  have e1: "emitted ?c1 = (ys @ [Newline k, Items ?parts]) @ [Newline 0]"
    using Cons.prems by (simp add: emitted_emitLine lineItem_def)
  have l1: "lastNewline ?c1 = Some (length (ys @ [Newline k, Items ?parts]))"
    using Cons.prems by (simp add: lastNewline_emitLine_index)
  have n1: "numBlankLinesNeeded ?c1 = 0" by (simp add: numBlank_emitLine)
  from Cons.IH[OF e1 l1 n1] obtain c' where c': "emitProperties r props ?c1 = Inr c'"
    "emitted c' = (ys @ [Newline k, Items ?parts]) @ [Newline 0] @ propertyLines r props"
    "lastNewline c' = Some (length (emitted c') - 1)" "numBlankLinesNeeded c' = 0" by blast
  have "propertyValidator (nameForNamedType r) p = s" by (simp add: propertyValidator_def s)
  then show ?case using c' s by (simp add: x propertyLines_def)
qed

lemma propertyLines_last:
  "props \<noteq> [] \<Longrightarrow> propertyLines r props = butlast (propertyLines r props) @ [Newline 0]"
proof -
  assume "props \<noteq> []"
  then obtain ps x where "props = ps @ [x]" by (metis rev_exhaust)
  then show ?thesis by (cases x) (simp add: propertyLines_def butlast_append)
qed

lemma emitObject_exact:
  "\<exists>c. emitObject r name props newEmitContext = Inr c \<and> emitted c = objectBody r name props"
proof -
  let ?hdr = "[Text ''_'', NameRef name, Text '' = PropTypes.shape({'']"
  let ?c0 = "emitLine ?hdr (ensureBlankLine newEmitContext)"
  have e0: "emitted ?c0 = [Items ?hdr] @ [Newline 0]"
    by (simp add: emitted_emitLine lineItem_def newEmitContext_def)
  have l0: "lastNewline ?c0 = Some (length [Items ?hdr])"
    by (simp add: lastNewline_emitLine_index newEmitContext_def)
  have n0: "numBlankLinesNeeded ?c0 = 0" by (simp add: numBlank_emitLine)
  from changeIndent_last[OF e0 l0, of 1] obtain c1 where c1: "changeIndent 1 ?c0 = Inr c1"
    "emitted c1 = [Items ?hdr] @ [Newline 1]" "lastNewline c1 = Some (length [Items ?hdr])"
    "numBlankLinesNeeded c1 = 0" using n0 by auto
  from emitProperties_exact[OF c1(2) c1(3) c1(4), of r props] obtain c2 where
    c2: "emitProperties r props c1 = Inr c2"
    "emitted c2 = [Items ?hdr] @ [Newline 1] @ propertyLines r props"
    "lastNewline c2 = Some (length (emitted c2) - 1)" "numBlankLinesNeeded c2 = 0" by blast
  show ?thesis
  proof (cases "props = []")
    case True
    then have e2: "emitted c2 = [Items ?hdr] @ [Newline 1]" using c2(2) by (simp add: propertyLines_def)
    have l2: "lastNewline c2 = Some (length [Items ?hdr])" using c2(3) e2 by simp
    from changeIndent_last[OF e2 l2, of "- 1"] obtain c3 where c3: "changeIndent (- 1) c2 = Inr c3"
      "emitted c3 = [Items ?hdr] @ [Newline 0]" "numBlankLinesNeeded c3 = 0" using c2(4) by auto
    have "emitObject r name props newEmitContext = Inr (emitLine [Text ''});''] c3)"
      using c1(1) c2(1) c3(1) by (simp add: emitObject_def indent_def)
    moreover have "emitted (emitLine [Text ''});''] c3) = objectBody r name props"
      using c3 True by (simp add: emitted_emitLine lineItem_def objectBody_def)
    ultimately show ?thesis by blast
  next
    case False
    let ?ys = "[Items ?hdr] @ [Newline 1] @ butlast (propertyLines r props)"
    have e2: "emitted c2 = ?ys @ [Newline 0]"
      using c2(2) propertyLines_last[OF False, of r] by simp
    have l2: "lastNewline c2 = Some (length ?ys)" using c2(3) e2 by simp
    from changeIndent_last[OF e2 l2, of "- 1"] obtain c3 where c3: "changeIndent (- 1) c2 = Inr c3"
      "emitted c3 = ?ys @ [Newline (- 1)]" "numBlankLinesNeeded c3 = 0" using c2(4) by auto
    have "emitObject r name props newEmitContext = Inr (emitLine [Text ''});''] c3)"
      using c1(1) c2(1) c3(1) by (simp add: emitObject_def indent_def)
    moreover have "emitted (emitLine [Text ''});''] c3) = objectBody r name props"
      using c3 False by (simp add: emitted_emitLine lineItem_def objectBody_def)
    ultimately show ?thesis by blast
  qed
qed

lemma gatherObjects_exact:
  "gatherObjects r objs =
     Inr (map (\<lambda>(t, props). (nameForNamedType r t, objectBody r (nameForNamedType r t) props)) objs)"
proof (induction objs)
  case Nil
  show ?case by simp
next
  case (Cons x objs)
  obtain t props where x: "x = (t, props)" by (cases x) auto
  obtain c where "emitObject r (nameForNamedType r t) props newEmitContext = Inr c"
    "emitted c = objectBody r (nameForNamedType r t) props"
    using emitObject_exact by blast
  with Cons show ?case by (simp add: x gatherSource_def)
qed

lemma bodyNames_objectBody:
  "bodyNames (objectBody r name props) = name # propertyNames (nameForNamedType r) props"
proof -
  obtain c where "emitObject r name props newEmitContext = Inr c"
    "emitted c = objectBody r name props" using emitObject_exact by blast
  moreover obtain c' where "emitObject r name props newEmitContext = Inr c'"
    "bodyNames (emitted c') = name # propertyNames (nameForNamedType r) props"
    using emitObject_returns by blast
  ultimately show ?thesis by simp
qed

lemma emitted_emitLine_nonempty [simp]: "emitted (emitLine lineParts c) \<noteq> []"
  by (simp add: emitLine_def)

lemma foldl_emitLine_exact:
  assumes "\<And>x. line x \<noteq> []"
  shows "emitted (foldl (\<lambda>c x. emitLine (line x) c) c xs) =
           emitted c @ (if xs = [] then [] else flush c) @
           concat (map (\<lambda>x. [lineItem (line x), Newline 0]) xs) \<and>
         numBlankLinesNeeded (foldl (\<lambda>c x. emitLine (line x) c) c xs) =
           (if xs = [] then numBlankLinesNeeded c else 0) \<and>
         preventBlankLine (foldl (\<lambda>c x. emitLine (line x) c) c xs) =
           (if xs = [] then preventBlankLine c else False)"
proof (induction xs arbitrary: c)
  case Nil
  show ?case by simp
next
  case (Cons x xs)
  have "flush (emitLine (line x) c) = []"
    using assms by (simp add: numBlank_emitLine)
  with Cons[of "emitLine (line x) c"] assms show ?case
    by (simp add: emitted_emitLine numBlank_emitLine)
qed

lemma emitPlaceholders_exact:
  "emitted (emitPlaceholders r c) =
     emitted c @ (if namedObjects r = [] then [] else flush c) @ placeholderLines r \<and>
   numBlankLinesNeeded (emitPlaceholders r c) =
     (if namedObjects r = [] then numBlankLinesNeeded c else 0) \<and>
   preventBlankLine (emitPlaceholders r c) =
     (if namedObjects r = [] then preventBlankLine c else False)"
  using foldl_emitLine_exact[of "\<lambda>x. placeholderLine (nameForNamedType r (fst x))" c "namedObjects r"]
  by (simp add: emitPlaceholders_def placeholderLines_def case_prod_unfold lineItem_def
        placeholderLine_def)

lemma emitEnums_exact:
  "emitted (emitEnums r c) =
     emitted c @ (if namedEnums r = [] then [] else flush c) @ enumLines r \<and>
   numBlankLinesNeeded (emitEnums r c) =
     (if namedEnums r = [] then numBlankLinesNeeded c else 0) \<and>
   preventBlankLine (emitEnums r c) =
     (if namedEnums r = [] then preventBlankLine c else False)"
  using foldl_emitLine_exact[of "\<lambda>x. [enumLine (nameForNamedType r (fst x)) (snd x)]" c "namedEnums r"]
  by (simp add: emitEnums_def enumLines_def case_prod_unfold lineItem_def)

lemma preventBlankLine_foldl_emitItem:
  "preventBlankLine (foldl (\<lambda>c item. emitItem item c) ctx items) =
     (if items = [] then preventBlankLine ctx else False)"
  by (induction items arbitrary: ctx) (simp_all add: emitItem_def pushItem_def Let_def)

lemma emitOrdered_exact:
  "emitted (emitOrdered mapValue order c) =
     emitted c @ (if concat (map (\<lambda>i. mapValue ! i) order) = [] then [] else flush c) @
     concat (map (\<lambda>i. mapValue ! i) order) \<and>
   numBlankLinesNeeded (emitOrdered mapValue order c) =
     (if concat (map (\<lambda>i. mapValue ! i) order) = [] then numBlankLinesNeeded c else 0) \<and>
   preventBlankLine (emitOrdered mapValue order c) =
     (if concat (map (\<lambda>i. mapValue ! i) order) = [] then preventBlankLine c else False)"
  by (simp only: emitOrdered_concat emitGatheredSource_def emitted_foldl_emitItem
        numBlank_foldl_emitItem preventBlankLine_foldl_emitItem simp_thms)

lemma emitTopLevel_exact:
  "emitTopLevel r t name c = Inr (emitLine (exportParts r t name) (ensureBlankLine c))"
proof (cases "isPrimitiveType t")
  case True
  obtain s where "typeMapTypeFor (nameForNamedType r) t True = Inr s"
    using typeMapTypeFor_returns by blast
  with True show ?thesis by (simp add: emitTopLevel_def exportParts_def synthesized_def)
next
  case False
  show ?thesis
  proof (cases t)
    case (TArray items)
    obtain s where "typeMapTypeFor (nameForNamedType r) items True = Inr s"
      using typeMapTypeFor_returns by blast
    with TArray show ?thesis
      by (simp add: emitTopLevel_def exportParts_def synthesized_def del: typeMapTypeFor_TArray)
  qed (use False in \<open>simp_all add: emitTopLevel_def exportParts_def\<close>)
qed

lemma exportParts_nonempty [simp]: "exportParts r t name \<noteq> []"
  by (simp add: exportParts_def split: option.splits)

lemma lineItem_exportParts [simp]: "lineItem (exportParts r t name) = Items (exportParts r t name)"
  by (simp add: exportParts_def lineItem_def split: option.splits)

lemma flush_ensureBlankLine:
  "emitted c \<noteq> [] \<Longrightarrow> \<not> preventBlankLine c \<Longrightarrow> numBlankLinesNeeded c \<le> 1 \<Longrightarrow>
   flush (ensureBlankLine c) = [Newline 0]"
  by (simp add: flush_def ensureBlankLine_def max_def)

lemma emitTopLevels_exact:
  "emitted c \<noteq> [] \<Longrightarrow> \<not> preventBlankLine c \<Longrightarrow> numBlankLinesNeeded c \<le> 1 \<Longrightarrow>
   \<exists>c'. emitTopLevels r tls c = Inr c' \<and>
        emitted c' = emitted c @
          concat (map (\<lambda>(t, name). [Newline 0, Items (exportParts r t name), Newline 0]) tls)"
proof (induction tls arbitrary: c)
  case Nil
  show ?case by simp
next
  case (Cons x tls)
  obtain t name where x: "x = (t, name)" by (cases x) auto
  let ?c1 = "emitLine (exportParts r t name) (ensureBlankLine c)"
  have e1: "emitted ?c1 = emitted c @ [Newline 0, Items (exportParts r t name), Newline 0]"
    using Cons.prems by (simp add: emitted_emitLine flush_ensureBlankLine)
  have "emitted ?c1 \<noteq> []" "\<not> preventBlankLine ?c1" "numBlankLinesNeeded ?c1 \<le> 1"
    by (simp_all add: numBlank_emitLine)
  from Cons.IH[OF this] obtain c' where "emitTopLevels r tls ?c1 = Inr c'"
    "emitted c' = emitted ?c1 @
          concat (map (\<lambda>(t, name). [Newline 0, Items (exportParts r t name), Newline 0]) tls)"
    by blast
  then show ?case by (simp add: x emitTopLevel_exact e1)
qed

lemma emitCommentLines_exact:
  "emitted (emitCommentLines lines newEmitContext) =
     concat (map (\<lambda>line. [Items [Text (if line = [] then ''//'' else ''// ''), Text line],
                          Newline 0]) lines) \<and>
   numBlankLinesNeeded (emitCommentLines lines newEmitContext) = 0 \<and>
   preventBlankLine (emitCommentLines lines newEmitContext) = (lines = [])"
  using foldl_emitLine_exact[of "\<lambda>line. [Text (if line = [] then ''//'' else ''// ''), Text line]"
          newEmitContext lines]
  by (simp add: emitCommentLines_def newEmitContext_def lineItem_def)

lemma headerItems_state:
  "\<exists>c. emitImports (case leadingComments r of
                        Some lines \<Rightarrow> emitCommentLines lines newEmitContext
                      | None \<Rightarrow> emitUsageComments newEmitContext) = c \<and>
       emitted c = headerItems r \<and> emitted c \<noteq> [] \<and> \<not> preventBlankLine c \<and>
       numBlankLinesNeeded c = 0"
proof (cases "leadingComments r")
  case None
  then show ?thesis
    by (simp add: headerItems_def emitImports_def emitUsageComments_def emitted_emitLine
          numBlank_emitLine lineItem_def newEmitContext_def flush_def ensureBlankLine_def)
next
  case (Some lines)
  let ?c = "emitCommentLines lines newEmitContext"
  have e: "emitted ?c =
     concat (map (\<lambda>line. [Items [Text (if line = [] then ''//'' else ''// ''), Text line],
                          Newline 0]) lines)"
    and n: "numBlankLinesNeeded ?c = 0" and p: "preventBlankLine ?c = (lines = [])"
    using emitCommentLines_exact[of lines] by simp_all
  have "flush (ensureBlankLine ?c) = (if lines = [] then [] else [Newline 0])"
  proof (cases "lines = []")
    case True
    then show ?thesis using e by (simp add: ensureBlankLine_def)
  next
    case False
    then obtain l ls where "lines = l # ls" by (cases lines) auto
    then show ?thesis using n p e by (simp add: flush_def ensureBlankLine_def)
  qed
  then show ?thesis
    using Some e by (simp add: headerItems_def emitImports_def emitted_emitLine numBlank_emitLine
          lineItem_def)
qed

lemma objectBody_nonempty [simp]: "objectBody r name props \<noteq> []"
  by (simp add: objectBody_def)

lemma emitSourceStructure_exact:
  "emitSourceStructure r =
     Inr (headerItems r @
          (if namedObjects r = [] \<and> namedEnums r = [] then [] else [Newline 0]) @
          placeholderLines r @ enumLines r @
          concat (map (\<lambda>i. objectBodies r ! i)
                    (emissionOrder (map (\<lambda>(t, props). nameForNamedType r t) (namedObjects r))
                       (objectBodies r))) @
          exportLines r)"
proof -
  let ?keys = "map (\<lambda>(t, props). nameForNamedType r t) (namedObjects r)"
  let ?order = "emissionOrder ?keys (objectBodies r)"
  let ?bodies = "concat (map (\<lambda>i. objectBodies r ! i) ?order)"
  obtain cI where cI: "emitImports (case leadingComments r of
                        Some lines \<Rightarrow> emitCommentLines lines newEmitContext
                      | None \<Rightarrow> emitUsageComments newEmitContext) = cI"
    "emitted cI = headerItems r" "emitted cI \<noteq> []" "\<not> preventBlankLine cI"
    "numBlankLinesNeeded cI = 0"
    using headerItems_state by blast
  let ?cE = "ensureBlankLine cI"
  have fE: "flush ?cE = [Newline 0]" using cI by (simp add: flush_ensureBlankLine)
  have nE: "numBlankLinesNeeded ?cE = 1" using cI by (simp add: ensureBlankLine_def)
  have pE: "\<not> preventBlankLine ?cE" using cI by (simp add: ensureBlankLine_def)
  let ?c1 = "emitPlaceholders r ?cE"
  let ?c2 = "emitEnums r ?c1"
  let ?c3 = "emitOrdered (objectBodies r) ?order ?c2"
  note P = emitPlaceholders_exact[of r ?cE]
  note E = emitEnums_exact[of r ?c1]
  note B = emitOrdered_exact[of "objectBodies r" ?order ?c2]
  have order_empty: "namedObjects r = [] \<Longrightarrow> ?order = []"
    by (simp add: emissionOrder_def)
  have bodies_nonempty: "namedObjects r \<noteq> [] \<Longrightarrow> ?bodies \<noteq> []"
  proof -
    assume ne: "namedObjects r \<noteq> []"
    have len: "length ?keys = length (namedObjects r)" by simp
    have "set ?order = {0..<length (namedObjects r)}"
      using emissionOrder_permutes[of ?keys "objectBodies r"] by (simp only: len)
    with ne have "0 \<in> set ?order" by (cases "namedObjects r") auto
    moreover have "objectBodies r ! 0 \<noteq> []"
      using ne by (cases "namedObjects r") (auto simp: objectBodies_def)
    ultimately show ?thesis by force
  qed
  have e1: "emitted ?c1 = headerItems r @ (if namedObjects r = [] then [] else [Newline 0]) @ placeholderLines r"
    using P fE cI(2) by simp
  have n1: "numBlankLinesNeeded ?c1 = (if namedObjects r = [] then 1 else 0)"
    using P nE by simp
  have p1: "\<not> preventBlankLine ?c1" using P pE by simp
  have ne1: "emitted ?c1 \<noteq> []" using e1 cI(2,3) by simp
  have f1: "flush ?c1 = (if namedObjects r = [] then [Newline 0] else [])"
    using n1 ne1 by (simp add: flush_def)
  have e2: "emitted ?c2 = emitted ?c1 @ (if namedEnums r = [] then [] else flush ?c1) @ enumLines r"
    using E by simp
  have n2: "numBlankLinesNeeded ?c2 = (if namedObjects r = [] \<and> namedEnums r = [] then 1 else 0)"
    using E n1 by simp
  have p2: "\<not> preventBlankLine ?c2" using E p1 by simp
  have ne2: "emitted ?c2 \<noteq> []" using e2 ne1 by simp
  have e3: "emitted ?c3 = emitted ?c2 @ ?bodies"
  proof (cases "namedObjects r = []")
    case True
    then show ?thesis using B order_empty by simp
  next
    case False
    then have "flush ?c2 = []" using n2 by simp
    then show ?thesis using B by simp
  qed
  have n3: "numBlankLinesNeeded ?c3 \<le> 1" using B n2 by (simp split: if_splits)
  have p3: "\<not> preventBlankLine ?c3" using B p2 by (simp split: if_splits)
  have ne3: "emitted ?c3 \<noteq> []" using e3 ne2 by simp
  from emitTopLevels_exact[OF ne3 p3 n3, of r "topLevels r"] obtain c4 where
    c4: "emitTopLevels r (topLevels r) ?c3 = Inr c4" "emitted c4 = emitted ?c3 @ exportLines r"
    by (auto simp: exportLines_def)
  have "emitTypes r cI = Inr c4"
    using c4(1) by (simp add: emitTypes_def Let_def gatherObjects_exact objectBodies_def comp_def case_prod_unfold)
  then have "emitSourceStructure r = Inr (emitted c4)"
    using cI(1) by (simp add: emitSourceStructure_def Let_def)
  moreover have "emitted c4 = headerItems r @
          (if namedObjects r = [] \<and> namedEnums r = [] then [] else [Newline 0]) @
          placeholderLines r @ enumLines r @ ?bodies @ exportLines r"
  proof (cases "namedObjects r = []")
    case True
    then have "placeholderLines r = []" by (simp add: placeholderLines_def)
    then show ?thesis using c4(2) e3 e2 e1 f1 True by simp
  next
    case False
    then show ?thesis using c4(2) e3 e2 e1 f1 by simp
  qed
  ultimately show ?thesis by simp
qed

lemma emissionOrder_objectBodies:
  "emissionOrder (map (\<lambda>(t, props). nameForNamedType r t) (namedObjects r)) (objectBodies r) =
     rev [0..<length (namedObjects r)]"
  using gathered_order_is_reverse[OF gatherObjects_exact, of r "namedObjects r"]
  by (simp add: objectBodies_def comp_def case_prod_unfold)

section \<open>Declarations before bodies\<close>

lemma propertyNames_nodes:
  "m \<in> set (propertyNames nm props) \<Longrightarrow>
   \<exists>u. m = nm u \<and> u \<in> set (concat (map (\<lambda>(name, jsonName, p). namedNodes (propType p)) props))"
  by (fastforce simp: propertyNames_def split: if_splits)

lemma bodyNames_concat: "bodyNames (concat xss) = concat (map bodyNames xss)"
  by (induction xss) simp_all

lemma objectBodies_names_declared:
  assumes closed: "closedGraph r"
    and m: "m \<in> set (bodyNames (concat (objectBodies r)))"
  shows "Items (placeholderLine m) \<in> set (placeholderLines r) \<or>
         (\<exists>cases. enumLine m cases \<in> set (enumLines r))"
proof -
  let ?nm = "nameForNamedType r"
  from m obtain t props where tp: "(t, props) \<in> set (namedObjects r)"
    "m \<in> set (bodyNames (objectBody r (?nm t) props))"
    by (auto simp: bodyNames_concat objectBodies_def)
  have "\<exists>u\<in>set (deliveredTypes r). m = ?nm u"
  proof (cases "m = ?nm t")
    case True
    have "t \<in> set (deliveredTypes r)" using tp(1) by (force simp: deliveredTypes_def)
    with True show ?thesis by blast
  next
    case False
    with tp(2) have "m \<in> set (propertyNames ?nm props)" by (simp add: bodyNames_objectBody)
    from propertyNames_nodes[OF this] obtain u where u: "m = ?nm u"
      "u \<in> set (concat (map (\<lambda>(name, jsonName, p). namedNodes (propType p)) props))" by blast
    have "u \<in> set (propertyNodes r)"
      unfolding propertyNodes_def using tp(1) u(2) by force
    with closed have "u \<in> set (deliveredTypes r)"
      by (simp add: closedGraph_def list_all_iff)
    with u(1) show ?thesis by blast
  qed
  then obtain u where u: "u \<in> set (deliveredTypes r)" "m = ?nm u" by blast
  from u(1) consider (obj) props' where "(u, props') \<in> set (namedObjects r)"
    | (enum) cases where "(u, cases) \<in> set (namedEnums r)"
    by (auto simp: deliveredTypes_def)
  then show ?thesis
  proof cases
    case obj
    then have "Items (placeholderLine (?nm u)) \<in> set (placeholderLines r)"
      by (force simp: placeholderLines_def)
    with u(2) show ?thesis by simp
  next
    case enum
    then have "enumLine (?nm u) cases \<in> set (enumLines r)"
      by (force simp: enumLines_def)
    with u(2) show ?thesis by blast
  qed
qed

text \<open>
  C6, as the code has it.  For every graph the pass returns, and its output is exactly:
  the header (comment and import); a blank line; the \<^verbatim>\<open>let\<close> placeholder line of every
  object, in the order of the traversal; the \<^verbatim>\<open>const\<close> line of every enum, which declares
  and defines it (an enum has no placeholder); every object body, in the order of the
  loop, which holds every object exactly once; the lines of the roots.  So every
  placeholder comes before every enum line and every object body, every enum line before
  every object body, and no placeholder, enum line or body occurs anywhere else.  In a
  closed graph every Name an object body refers to has its placeholder among the
  placeholder lines or its enum line among the enum lines.  This covers graphs with
  mutual recursion between objects.
\<close>

theorem declarations_precede_object_bodies:
  assumes closed: "closedGraph r"
  shows
    "distinct (emissionOrder (map (\<lambda>(t, props). nameForNamedType r t) (namedObjects r))
                 (objectBodies r)) \<and>
     set (emissionOrder (map (\<lambda>(t, props). nameForNamedType r t) (namedObjects r))
            (objectBodies r)) = {0..<length (namedObjects r)} \<and>
     emitSourceStructure r =
       Inr (headerItems r @
            (if namedObjects r = [] \<and> namedEnums r = [] then [] else [Newline 0]) @
            placeholderLines r @ enumLines r @
            concat (map (\<lambda>i. objectBodies r ! i)
                      (emissionOrder (map (\<lambda>(t, props). nameForNamedType r t) (namedObjects r))
                         (objectBodies r))) @
            exportLines r) \<and>
     (\<forall>m\<in>set (bodyNames (concat (objectBodies r))).
         Items (placeholderLine m) \<in> set (placeholderLines r) \<or>
         (\<exists>cases. enumLine m cases \<in> set (enumLines r)))"
proof -
  let ?keys = "map (\<lambda>(t, props). nameForNamedType r t) (namedObjects r)"
  have "length ?keys = length (namedObjects r)" by simp
  with emissionOrder_permutes[of ?keys "objectBodies r"]
  have perm: "distinct (emissionOrder ?keys (objectBodies r))"
    "set (emissionOrder ?keys (objectBodies r)) = {0..<length (namedObjects r)}"
    by simp_all
  have refs: "\<forall>m\<in>set (bodyNames (concat (objectBodies r))).
         Items (placeholderLine m) \<in> set (placeholderLines r) \<or>
         (\<exists>cases. enumLine m cases \<in> set (enumLines r))"
    using objectBodies_names_declared[OF closed] by blast
  show ?thesis
    apply (intro conjI)
       apply (rule perm(1))
      apply (rule perm(2))
     apply (rule emitSourceStructure_exact)
    apply (rule refs)
    done
qed

theorem declarations_precede_object_bodies_witness:
  "closedGraph mutualRenderer \<and>
   distinct (emissionOrder
               (map (\<lambda>(t, props). nameForNamedType mutualRenderer t) (namedObjects mutualRenderer))
               (objectBodies mutualRenderer)) \<and>
   set (emissionOrder
          (map (\<lambda>(t, props). nameForNamedType mutualRenderer t) (namedObjects mutualRenderer))
          (objectBodies mutualRenderer)) = {0..<length (namedObjects mutualRenderer)} \<and>
   emitSourceStructure mutualRenderer =
     Inr (headerItems mutualRenderer @
          (if namedObjects mutualRenderer = [] \<and> namedEnums mutualRenderer = [] then []
           else [Newline 0]) @
          placeholderLines mutualRenderer @ enumLines mutualRenderer @
          concat (map (\<lambda>i. objectBodies mutualRenderer ! i)
                    (emissionOrder
                       (map (\<lambda>(t, props). nameForNamedType mutualRenderer t)
                          (namedObjects mutualRenderer))
                       (objectBodies mutualRenderer))) @
          exportLines mutualRenderer) \<and>
   list_all (\<lambda>m. Items (placeholderLine m) \<in> set (placeholderLines mutualRenderer) \<or>
                 (\<exists>cases. enumLine m cases \<in> set (enumLines mutualRenderer)))
     (bodyNames (concat (objectBodies mutualRenderer))) \<and>
   bodyNames (concat (objectBodies mutualRenderer)) = [Name 0, Name 1, Name 1, Name 0, Name 5] \<and>
   emitSourceStructure mutualRenderer = Inr mutualRendererOutput"
proof -
  have closed: "closedGraph mutualRenderer"
    by code_simp
  have out: "emitSourceStructure mutualRenderer = Inr mutualRendererOutput"
    by code_simp
  have names: "bodyNames (concat (objectBodies mutualRenderer)) =
                 [Name 0, Name 1, Name 1, Name 0, Name 5]"
    by code_simp
  note t = declarations_precede_object_bodies[OF closed]
  from t have "\<forall>m\<in>set (bodyNames (concat (objectBodies mutualRenderer))).
      Items (placeholderLine m) \<in> set (placeholderLines mutualRenderer) \<or>
      (\<exists>cases. enumLine m cases \<in> set (enumLines mutualRenderer))"
    by (elim conjE)
  then have declared:
    "list_all (\<lambda>m. Items (placeholderLine m) \<in> set (placeholderLines mutualRenderer) \<or>
                   (\<exists>cases. enumLine m cases \<in> set (enumLines mutualRenderer)))
       (bodyNames (concat (objectBodies mutualRenderer)))"
    by (simp only: list_all_iff)
  show ?thesis
    apply (intro conjI)
          apply (rule closed)
         apply (rule t[THEN conjunct1])
        apply (rule t[THEN conjunct2, THEN conjunct1])
       apply (rule t[THEN conjunct2, THEN conjunct2, THEN conjunct1])
      apply (rule declared)
     apply (rule names)
    apply (rule out)
    done
qed

text \<open>
  C6, as stated, fails on the graph with one enum and no object: the output is the one
  listed, the definition of the enum is its item 6, no item before it refers to a Name,
  and no item of the output is a placeholder for the Name of the enum.
\<close>

theorem enum_identity_has_no_placeholder:
  "emitSourceStructure enumRenderer = Inr enumRendererOutput \<and>
   enumRendererOutput ! 6 =
     enumLine (Name 5) [(Name 22, ''Blue''), (Name 21, ''Green''), (Name 20, ''Red'')] \<and>
   bodyNames (take 6 enumRendererOutput) = [] \<and>
   Items (placeholderLine (Name 5)) \<notin> set enumRendererOutput"
  by code_simp

section \<open>A second run with a fresh Namer\<close>

lemma arrayIntercalate_map:
  "g sep = sep' \<Longrightarrow> arrayIntercalate sep' (map g xs) = map g (arrayIntercalate sep xs)"
  by (induction sep xs rule: arrayIntercalate.induct) simp_all

lemma typeMapTypeForChildren_rename:
  "(\<And>t. t \<in> set ts \<Longrightarrow>
      typeMapTypeFor (\<lambda>t. f (nm t)) t False = map_sum id (renameItem f) (typeMapTypeFor nm t False)) \<Longrightarrow>
   typeMapTypeForChildren (\<lambda>t. f (nm t)) ts =
     map_sum id (map (renameItem f)) (typeMapTypeForChildren nm ts)"
proof (induction ts)
  case Nil
  show ?case by simp
next
  case (Cons t ts)
  have 1: "typeMapTypeFor (\<lambda>t. f (nm t)) t False = map_sum id (renameItem f) (typeMapTypeFor nm t False)"
    by (rule Cons.prems) simp
  have 2: "typeMapTypeForChildren (\<lambda>t. f (nm t)) ts =
     map_sum id (map (renameItem f)) (typeMapTypeForChildren nm ts)"
    by (rule Cons.IH, rule Cons.prems) simp
  show ?case by (simp add: 1 2 split: sum.splits)
qed

lemma typeMapTypeFor_rename:
  "typeMapTypeFor (\<lambda>t. f (nm t)) t required =
     map_sum id (renameItem f) (typeMapTypeFor nm t required)"
proof (induction t arbitrary: required)
  case (TArray t)
  then show ?case by (simp split: sum.splits)
next
  case (TUnion members)
  have "typeMapTypeForChildren (\<lambda>t. f (nm t)) members =
     map_sum id (map (renameItem f)) (typeMapTypeForChildren nm members)"
    using TUnion.IH by (intro typeMapTypeForChildren_rename) blast
  then show ?case
    by (simp split: sum.splits add: arrayIntercalate_map[of "renameItem f" "Text '', ''" "Text '', ''"])
qed simp_all

lemma synthesized_rename:
  "synthesized (\<lambda>t. f (nm t)) t = renameItem f (synthesized nm t)"
proof -
  obtain s where "typeMapTypeFor nm t True = Inr s" using typeMapTypeFor_returns by blast
  then show ?thesis by (simp add: synthesized_def typeMapTypeFor_rename)
qed

lemma propertyValidator_rename:
  "propertyValidator (\<lambda>t. f (nm t)) p = renameItem f (propertyValidator nm p)"
proof -
  obtain s where "typeMapTypeFor nm (propType p) True = Inr s" using typeMapTypeFor_returns by blast
  then show ?thesis
    by (simp add: propertyValidator_def typeMapTypeForProperty_def typeMapTypeFor_rename)
qed

lemma renameRenderer_fields [simp]:
  "nameForNamedType (renameRenderer f r) = (\<lambda>t. f (nameForNamedType r t))"
  "utf16StringEscape (renameRenderer f r) = utf16StringEscape r"
  "leadingComments (renameRenderer f r) = leadingComments r"
  "namedObjects (renameRenderer f r) =
     map (\<lambda>(t, props). (t, renameProperties f props)) (namedObjects r)"
  "namedEnums (renameRenderer f r) = map (\<lambda>(t, cases). (t, renameCases f cases)) (namedEnums r)"
  "topLevels (renameRenderer f r) = map (\<lambda>(t, name). (t, f name)) (topLevels r)"
  by (simp_all add: renameRenderer_def)

lemma propertyLines_rename:
  "propertyLines (renameRenderer f r) (renameProperties f props) =
     map (renameItem f) (propertyLines r props)"
  by (induction props)
     (auto simp: propertyLines_def renameProperties_def propertyValidator_rename)

lemma renameProperties_empty [simp]: "(renameProperties f props = []) = (props = [])"
  by (simp add: renameProperties_def)

lemma objectBody_rename:
  "objectBody (renameRenderer f r) (f name) (renameProperties f props) =
     map (renameItem f) (objectBody r name props)"
  by (simp add: objectBody_def propertyLines_rename map_butlast)

lemma objectBodies_rename:
  "objectBodies (renameRenderer f r) = map (map (renameItem f)) (objectBodies r)"
  by (simp add: objectBodies_def comp_def case_prod_unfold objectBody_rename)

lemma enumOptions_rename:
  "enumOptions (renameCases f cases) = map (renameItem f) (enumOptions cases)"
proof -
  have "concat (arrayIntercalate [Text '', '']
          (map (\<lambda>c. [Text [CHR 0x27], NameRef (f (fst c)), Text [CHR 0x27]]) cases)) =
        map (renameItem f) (concat (arrayIntercalate [Text '', '']
          (map (\<lambda>c. [Text [CHR 0x27], NameRef (fst c), Text [CHR 0x27]]) cases)))"
    using arrayIntercalate_map[of "map (renameItem f)" "[Text '', '']" "[Text '', '']"
            "map (\<lambda>c. [Text [CHR 0x27], NameRef (fst c), Text [CHR 0x27]]) cases"]
    by (simp add: map_concat comp_def)
  then show ?thesis
    by (simp add: enumOptions_intercalate renameCases_def case_prod_unfold comp_def)
qed

lemma enumLine_rename:
  "enumLine (f n) (renameCases f cases) = renameItem f (enumLine n cases)"
  by (simp add: enumLine_def enumOptions_rename)

lemma enumLines_rename: "enumLines (renameRenderer f r) = map (renameItem f) (enumLines r)"
  by (simp add: enumLines_def map_concat comp_def case_prod_unfold enumLine_rename)

lemma placeholderLines_rename:
  "placeholderLines (renameRenderer f r) = map (renameItem f) (placeholderLines r)"
  by (simp add: placeholderLines_def map_concat comp_def case_prod_unfold placeholderLine_def)

lemma exportParts_rename:
  "exportParts (renameRenderer f r) t (f name) = map (renameItem f) (exportParts r t name)"
  by (simp add: exportParts_def synthesized_rename split: option.splits)

lemma exportLines_rename: "exportLines (renameRenderer f r) = map (renameItem f) (exportLines r)"
  by (simp add: exportLines_def map_concat comp_def case_prod_unfold exportParts_rename)

lemma renameItem_no_names: "referencedNames x = [] \<Longrightarrow> renameItem f x = x"
proof (induction x)
  case (Items xs)
  then have "\<And>y. y \<in> set xs \<Longrightarrow> renameItem f y = y" by simp
  then show ?case by (simp add: map_idI)
qed simp_all

lemma rename_no_names: "bodyNames xs = [] \<Longrightarrow> map (renameItem f) xs = xs"
  by (induction xs) (simp_all add: renameItem_no_names)

lemma bodyNames_headerItems: "bodyNames (headerItems r) = []"
proof (cases "leadingComments r")
  case None
  then show ?thesis by (simp add: headerItems_def)
next
  case (Some lines)
  have "bodyNames (concat (map (\<lambda>line. [Items [Text (if line = [] then ''//'' else ''// ''),
                                                Text line], Newline 0]) lines)) = []"
    by (induction lines) simp_all
  with Some show ?thesis by (simp add: headerItems_def)
qed

lemma headerItems_rename: "headerItems (renameRenderer f r) = headerItems r"
  by (simp add: headerItems_def)

lemma concat_nth_map:
  "\<forall>i\<in>set order. i < length bodies \<Longrightarrow>
   concat (map (\<lambda>i. map (map g) bodies ! i) order) = map g (concat (map (\<lambda>i. bodies ! i) order))"
  by (induction order) simp_all

lemma emitSourceStructure_rename:
  "\<exists>out. emitSourceStructure r = Inr out \<and>
         emitSourceStructure (renameRenderer f r) = Inr (map (renameItem f) out)"
proof -
  let ?n = "length (namedObjects r)"
  have ord: "\<forall>i\<in>set (rev [0..<?n]). i < length (objectBodies r)"
    by (simp add: objectBodies_def)
  have b: "concat (map (\<lambda>i. map (map (renameItem f)) (objectBodies r) ! i) (rev [0..<?n])) =
        map (renameItem f) (concat (map (\<lambda>i. objectBodies r ! i) (rev [0..<?n])))"
    using concat_nth_map[OF ord, of "renameItem f"] by simp
  have h: "map (renameItem f) (headerItems r) = headerItems r"
    by (rule rename_no_names) (rule bodyNames_headerItems)
  have o: "emissionOrder (map (\<lambda>(t, props). nameForNamedType (renameRenderer f r) t)
                  (namedObjects (renameRenderer f r))) (objectBodies (renameRenderer f r)) =
           rev [0..<?n]"
    using emissionOrder_objectBodies[of "renameRenderer f r"] by simp
  show ?thesis
    apply (rule exI, rule conjI, rule emitSourceStructure_exact)
    apply (subst emitSourceStructure_exact)
    apply (simp only: o emissionOrder_objectBodies)
    apply (simp add: objectBodies_rename enumLines_rename placeholderLines_rename
        exportLines_rename headerItems_rename h b)
    done
qed

lemma render_rename:
  "\<forall>n. assigned' (f n) = assigned n \<Longrightarrow> render assigned' (renameItem f x) = render assigned x"
proof (induction x)
  case (Items xs)
  then have h: "map (\<lambda>x. render assigned' (renameItem f x)) xs = map (render assigned) xs"
    by (intro map_cong) simp_all
  have "render assigned' (renameItem f (Items xs)) =
          concat (map (\<lambda>x. render assigned' (renameItem f x)) xs)"
    by (simp add: comp_def)
  also have "\<dots> = concat (map (render assigned) xs)"
    by (simp only: h)
  finally show ?case by simp
qed simp_all

text \<open>
  C8.  Two runs of the pass on the same graph, the second with a fresh Namer: its Names
  are new objects (\<open>fresh n\<close> in the place of \<open>n\<close>) to which the Namer assigns the strings
  of the first run.  Both runs return an output, the second output is the first with
  every Name replaced by the new one, and the two outputs have the same text.
\<close>

theorem fresh_names_same_text:
  assumes "\<forall>n. assigned' (fresh n) = assigned n"
  shows "\<exists>out. emitSourceStructure r = Inr out \<and>
           emitSourceStructure (renameRenderer fresh r) = Inr (map (renameItem fresh) out) \<and>
           renderOutput assigned' (map (renameItem fresh) out) = renderOutput assigned out"
proof -
  obtain out where out: "emitSourceStructure r = Inr out"
    "emitSourceStructure (renameRenderer fresh r) = Inr (map (renameItem fresh) out)"
    using emitSourceStructure_rename by blast
  have "renderOutput assigned' (map (renameItem fresh) out) = renderOutput assigned out"
    using render_rename[of assigned' fresh assigned] assms by (simp add: renderOutput_def comp_def)
  with out show ?thesis by blast
qed

theorem fresh_names_same_text_witness:
  "(\<forall>n. freshAssigned (freshName n) = mutualAssigned n) \<and>
   freshName (Name 0) \<noteq> Name 0 \<and>
   (\<exists>out. emitSourceStructure mutualRenderer = Inr out \<and>
      emitSourceStructure (renameRenderer freshName mutualRenderer) =
        Inr (map (renameItem freshName) out) \<and>
      renderOutput freshAssigned (map (renameItem freshName) out) =
        renderOutput mutualAssigned out)"
proof -
  have same: "\<forall>n. freshAssigned (freshName n) = mutualAssigned n"
  proof
    fix n show "freshAssigned (freshName n) = mutualAssigned n"
      by (cases n) simp
  qed
  have other: "freshName (Name 0) \<noteq> Name 0" by simp
  from fresh_names_same_text
         [where assigned' = freshAssigned and fresh = freshName and assigned = mutualAssigned
            and r = mutualRenderer, OF same]
       same other
  show ?thesis
    by (intro conjI)
qed

end
